theory Spec2Isabelle
  imports Main
begin

text \<open>
  A model of \<open>src/renderer/services/editor.ts\<close>, the module between the application
  and its editor widget: the widget's text model and editor as far as the module uses
  them, the module's own state and functions, and the properties of the module that
  the specification claims.
\<close>

section \<open>Strings and line terminators\<close>

text \<open>
  A JavaScript string is a sequence of UTF-16 code units and \<open>text.length\<close> counts
  them.  A string is modelled as a \<open>string\<close> (a list of \<open>char\<close>), one \<open>char\<close> per
  code unit, so \<open>length\<close> is \<open>.length\<close>.  The \<open>char\<close> type has no surrogate code
  units, hence the widget's adjustment of a column that falls between the two halves of
  a surrogate pair has no counterpart here.
\<close>

definition LF :: char where
  "LF = CHR 0x0A"

definition CR :: char where
  "CR = CHR 0x0D"

text \<open>
  The widget stores a buffer as lines.  A text is cut into lines at every
  \<open>\r\n\<close>, lone \<open>\r\<close> and lone \<open>\n\<close> (the regular expression \<open>/\r\n|\r|\n/\<close> the
  widget's buffer applies to the text of an edit).
\<close>

fun splitLines :: "string \<Rightarrow> string list" where
  "splitLines [] = [[]]"
| "splitLines [c] = (if c = LF \<or> c = CR then [[], []] else [[c]])"
| "splitLines (c # d # r) =
     (if c = CR \<and> d = LF then [] # splitLines r
      else if c = LF \<or> c = CR then [] # splitLines (d # r)
      else (case splitLines (d # r) of
              [] \<Rightarrow> [[c]]
            | l # ls \<Rightarrow> (c # l) # ls))"

fun joinLines :: "string \<Rightarrow> string list \<Rightarrow> string" where
  "joinLines sep [] = []"
| "joinLines sep [l] = l"
| "joinLines sep (l # k # ls) = l @ sep @ joinLines sep (k # ls)"

definition noEOL :: "string \<Rightarrow> bool" where
  "noEOL s = (LF \<notin> set s \<and> CR \<notin> set s)"

section \<open>The widget's text model\<close>

text \<open>
  \<open>Position\<close> and \<open>Range\<close> are the widget's 1-indexed coordinates.  Line numbers
  and columns are JavaScript numbers in the source; they are integers here, so that
  zero and negative arguments are inputs of the model too.
\<close>

record Position =
  lineNumber :: int
  column :: int

record Range =
  startLineNumber :: int
  startColumn :: int
  endLineNumber :: int
  endColumn :: int

datatype EndOfLine = EOL_LF | EOL_CRLF

fun eolString :: "EndOfLine \<Rightarrow> string" where
  "eolString EOL_LF = [LF]"
| "eolString EOL_CRLF = [CR, LF]"

text \<open>
  The text model (\<open>editor.getModel()\<close>): the lines of the buffer, none of which holds
  a line terminator, and the one terminator the buffer uses between them.
\<close>

record TextModel =
  bufLines :: "string list"
  bufEOL :: EndOfLine

definition wfModel :: "TextModel \<Rightarrow> bool" where
  "wfModel m = (bufLines m \<noteq> [] \<and> list_all noEOL (bufLines m))"

definition createModel :: "string \<Rightarrow> EndOfLine \<Rightarrow> TextModel" where
  "createModel s e = \<lparr>bufLines = splitLines s, bufEOL = e\<rparr>"

datatype error =
    IllegalLineNumber  \<comment> \<open>the widget's \<open>Illegal value for lineNumber\<close>\<close>
  | NotReady           \<comment> \<open>TypeError: a member of an unbound handle is read\<close>

text \<open>
  The methods of the text model.  \<open>getLineContent\<close> and \<open>getLineLength\<close> throw on a
  line number outside the buffer.  (The model's \<open>getLineContent\<close> and \<open>getValue\<close> carry
  an \<open>M\<close> here; the plain names are the module's functions.)
\<close>

definition getLineCount :: "TextModel \<Rightarrow> int" where
  "getLineCount m = int (length (bufLines m))"

definition getLineContentM :: "TextModel \<Rightarrow> int \<Rightarrow> error + string" where
  "getLineContentM m n =
     (if n < 1 \<or> n > getLineCount m then Inl IllegalLineNumber
      else Inr (bufLines m ! nat (n - 1)))"

definition getLineLength :: "TextModel \<Rightarrow> int \<Rightarrow> error + int" where
  "getLineLength m n =
     (if n < 1 \<or> n > getLineCount m then Inl IllegalLineNumber
      else Inr (int (length (bufLines m ! nat (n - 1)))))"

text \<open>The column just after the last code unit of a line that exists.\<close>

definition lineMaxColumn :: "TextModel \<Rightarrow> int \<Rightarrow> int" where
  "lineMaxColumn m n = int (length (bufLines m ! nat (n - 1))) + 1"

text \<open>
  \<open>validatePosition\<close> never fails: a position outside the buffer is moved to the
  nearest one inside it.
\<close>

definition validatePosition :: "TextModel \<Rightarrow> Position \<Rightarrow> Position" where
  "validatePosition m p =
     (let lineCount = getLineCount m in
      if lineNumber p < 1 then \<lparr>lineNumber = 1, column = 1\<rparr>
      else if lineNumber p > lineCount
        then \<lparr>lineNumber = lineCount, column = lineMaxColumn m lineCount\<rparr>
      else if column p \<le> 1 then \<lparr>lineNumber = lineNumber p, column = 1\<rparr>
      else if column p \<ge> lineMaxColumn m (lineNumber p)
        then \<lparr>lineNumber = lineNumber p, column = lineMaxColumn m (lineNumber p)\<rparr>
      else \<lparr>lineNumber = lineNumber p, column = column p\<rparr>)"

text \<open>\<open>new Range(a, b, c, d)\<close>: the constructor swaps the ends when they come reversed.\<close>

definition mkRange :: "int \<Rightarrow> int \<Rightarrow> int \<Rightarrow> int \<Rightarrow> Range" where
  "mkRange sl sc el ec =
     (if sl > el \<or> (sl = el \<and> sc > ec)
      then \<lparr>startLineNumber = el, startColumn = ec, endLineNumber = sl, endColumn = sc\<rparr>
      else \<lparr>startLineNumber = sl, startColumn = sc, endLineNumber = el, endColumn = ec\<rparr>)"

definition validateRange :: "TextModel \<Rightarrow> Range \<Rightarrow> Range" where
  "validateRange m r =
     (let s = validatePosition m \<lparr>lineNumber = startLineNumber r, column = startColumn r\<rparr>;
          e = validatePosition m \<lparr>lineNumber = endLineNumber r, column = endColumn r\<rparr>
      in mkRange (lineNumber s) (column s) (lineNumber e) (column e))"

datatype EndOfLinePreference = TextDefined | PreferLF | PreferCRLF

fun eolOf :: "TextModel \<Rightarrow> EndOfLinePreference \<Rightarrow> string" where
  "eolOf m TextDefined = eolString (bufEOL m)"
| "eolOf m PreferLF = [LF]"
| "eolOf m PreferCRLF = [CR, LF]"

definition getValueM :: "TextModel \<Rightarrow> EndOfLinePreference \<Rightarrow> string" where
  "getValueM m pref = joinLines (eolOf m pref) (bufLines m)"

text \<open>
  The lines a valid range covers, cut at its two columns; \<open>getValueInRange\<close> joins
  them with the buffer's terminator.
\<close>

definition linesInRange :: "TextModel \<Rightarrow> Range \<Rightarrow> string list" where
  "linesInRange m r =
     (let sl = nat (startLineNumber r - 1); el = nat (endLineNumber r - 1);
          sc = nat (startColumn r - 1); ec = nat (endColumn r - 1)
      in if sl = el then [take (ec - sc) (drop sc (bufLines m ! sl))]
         else drop sc (bufLines m ! sl)
              # take (el - sl - 1) (drop (sl + 1) (bufLines m))
              @ [take ec (bufLines m ! el)])"

definition getValueInRange :: "TextModel \<Rightarrow> Range \<Rightarrow> string" where
  "getValueInRange m r =
     joinLines (eolString (bufEOL m)) (linesInRange m (validateRange m r))"

text \<open>
  One edit: the range is validated, the text is cut into lines (which turns each of
  its terminators into the buffer's), and the lines replace the range.  A \<open>null\<close> text
  (\<open>None\<close>) deletes.
\<close>

definition spliceLines :: "string \<Rightarrow> string list \<Rightarrow> string \<Rightarrow> string list" where
  "spliceLines pre ns post =
     (case ns of
        [] \<Rightarrow> [pre @ post]
      | n # rest \<Rightarrow>
          if rest = [] then [pre @ n @ post]
          else (pre @ n) # butlast rest @ [last rest @ post])"

definition applyEdit :: "TextModel \<Rightarrow> Range \<Rightarrow> string option \<Rightarrow> TextModel" where
  "applyEdit m rawRange txt =
     (let r = validateRange m rawRange;
          sl = nat (startLineNumber r - 1); el = nat (endLineNumber r - 1);
          pre = take (nat (startColumn r - 1)) (bufLines m ! sl);
          post = drop (nat (endColumn r - 1)) (bufLines m ! el);
          ns = splitLines (case txt of None \<Rightarrow> [] | Some s \<Rightarrow> s)
      in m\<lparr>bufLines := take sl (bufLines m) @ spliceLines pre ns post
                          @ drop (el + 1) (bufLines m)\<rparr>)"

section \<open>The editor widget\<close>

text \<open>
  \<open>Selection\<close> is the widget's selection: where it was anchored and where the caret
  (the position) is.
\<close>

record Selection =
  selectionStartLineNumber :: int
  selectionStartColumn :: int
  positionLineNumber :: int
  positionColumn :: int

definition collapsedAt :: "Position \<Rightarrow> Selection" where
  "collapsedAt p =
     \<lparr>selectionStartLineNumber = lineNumber p, selectionStartColumn = column p,
      positionLineNumber = lineNumber p, positionColumn = column p\<rparr>"

definition selectionRange :: "Selection \<Rightarrow> Range" where
  "selectionRange s =
     mkRange (selectionStartLineNumber s) (selectionStartColumn s)
             (positionLineNumber s) (positionColumn s)"

text \<open>
  The state of one editor object in its writable configuration (a widget created
  read-only ignores \<open>executeEdits\<close>), with a text model attached.

  \<^item> \<open>edits\<close> lists the calls of \<open>executeEdits\<close>, oldest first.
  \<^item> \<open>revealed\<close> lists the calls of \<open>revealPositionInCenter\<close>, oldest first.
  \<^item> \<open>isViewportWrapping\<close> and \<open>isDominatedByLongLines\<close> are the two fields of the
    \<open>wrappingInfo\<close> option the source reads.
  \<^item> \<open>trackSelection\<close> is how this widget moves its selection across an edit that
    names no end cursor state (it follows markers kept inside the widget).  The source
    never depends on it, so it is left open: any function.
\<close>

record Editor =
  model :: TextModel
  selection :: Selection
  hasFocus :: bool
  edits :: "(Range \<times> string option) list"
  revealed :: "Position list"
  isViewportWrapping :: bool
  isDominatedByLongLines :: bool
  trackSelection :: "TextModel \<Rightarrow> Range \<Rightarrow> string option \<Rightarrow> Selection \<Rightarrow> Selection"

definition executeEdits :: "Range \<Rightarrow> string option \<Rightarrow> Editor \<Rightarrow> Editor" where
  "executeEdits r txt ed =
     ed\<lparr>model := applyEdit (model ed) r txt,
        selection := trackSelection ed (model ed) r txt (selection ed),
        edits := edits ed @ [(r, txt)]\<rparr>"

definition setPosition :: "Position \<Rightarrow> Editor \<Rightarrow> Editor" where
  "setPosition p ed = ed\<lparr>selection := collapsedAt (validatePosition (model ed) p)\<rparr>"

definition getPosition :: "Editor \<Rightarrow> Position" where
  "getPosition ed =
     \<lparr>lineNumber = positionLineNumber (selection ed),
      column = positionColumn (selection ed)\<rparr>"

definition focus :: "Editor \<Rightarrow> Editor" where
  "focus ed = ed\<lparr>hasFocus := True\<rparr>"

definition revealPositionInCenter :: "Position \<Rightarrow> Editor \<Rightarrow> Editor" where
  "revealPositionInCenter p ed = ed\<lparr>revealed := revealed ed @ [p]\<rparr>"

section \<open>The module's state\<close>

text \<open>
  The module keeps two variables, \<open>monaco\<close> and \<open>editor\<close>, unbound (\<open>undefined\<close>,
  here \<open>None\<close>) until the \<open>MONACO_READY\<close> hook binds them.  A handle is a reference to
  an object; \<open>widgets\<close> gives the state of the editor object behind each handle.
\<close>

type_synonym handle = nat

record Payload =
  payloadMonaco :: handle
  payloadEditor :: handle

datatype WordWrap = WrapOn | WrapOff

record Store =
  wordWrap :: WordWrap
  typewriterMode :: bool

datatype Mutation = SetWordWrap WordWrap | SetTypewriterMode bool

datatype HookName =
    MONACO_BEFORE_INIT | MONACO_READY | EDITOR_READY | MONACO_CHANGE_VALUE
  | EDITOR_CHANGE | THEME_CHANGE | SETTING_FETCHED | SETTING_CHANGED

text \<open>
  A registration of the hook bus.  The only handler this module registers while it
  runs is the \<open>resolve\<close> function of a promise (in \<open>whenEditorReady\<close>), so a
  registration names the promise its handler resolves.
\<close>

record Hook =
  hookName :: HookName
  hookResolves :: nat
  hookOnce :: bool

text \<open>
  \<^item> \<open>committed\<close> lists the mutations passed to \<open>store.commit\<close>, oldest first.
  \<^item> \<open>toasts\<close> lists the calls of \<open>useToast().show\<close>, oldest first.
  \<^item> \<open>promises\<close> holds, for each promise \<open>whenEditorReady\<close> has returned, the value
    it is resolved with (\<open>None\<close> while it is pending).
\<close>

record Module =
  monaco :: "handle option"
  editor :: "handle option"
  widgets :: "handle \<Rightarrow> Editor"
  store :: Store
  committed :: "Mutation list"
  toasts :: "(string \<times> string) list"
  hooks :: "Hook list"
  promises :: "Payload option list"

definition updateWidget :: "handle \<Rightarrow> Editor \<Rightarrow> Module \<Rightarrow> Module" where
  "updateWidget h ed st = st\<lparr>widgets := (widgets st)(h := ed)\<rparr>"

section \<open>Collaborators of the repository that are not among the sources\<close>

text \<open>
  Modelled from the spec: the store (\<open>@fe/support/store\<close>) is missing from the sources.
  The spec gives it \<open>state.wordWrap\<close> and \<open>state.typewriterMode\<close> to read and
  \<open>commit(mutation, value)\<close> to write; a mutation writes its value to the field it is
  named after.
\<close>

fun applyMutation :: "Mutation \<Rightarrow> Store \<Rightarrow> Store" where
  "applyMutation (SetWordWrap w) s = s\<lparr>wordWrap := w\<rparr>"
| "applyMutation (SetTypewriterMode b) s = s\<lparr>typewriterMode := b\<rparr>"

definition commit :: "Mutation \<Rightarrow> Module \<Rightarrow> Module" where
  "commit mu st =
     st\<lparr>store := applyMutation mu (store st), committed := committed st @ [mu]\<rparr>"

text \<open>
  Modelled from the spec: the toast service (\<open>@fe/support/ui/toast\<close>) is missing from
  the sources; \<open>show(kind, message)\<close> displays one notification.
\<close>

definition showToast :: "string \<Rightarrow> string \<Rightarrow> Module \<Rightarrow> Module" where
  "showToast kind msg st = st\<lparr>toasts := toasts st @ [(kind, msg)]\<rparr>"

text \<open>
  Modelled from the spec: the hook bus (\<open>@fe/core/hook\<close>) is missing from the sources.
  \<open>register(name, handler, once)\<close> stores the handler after those registered before;
  \<open>trigger(name, payload)\<close> invokes every handler registered for the name at that
  moment, in registration order, and a handler registered with \<open>once\<close> is removed when
  it is invoked.  Invoking the \<open>resolve\<close> function of a promise settles the promise
  with the payload if it is still pending, and does nothing otherwise.
\<close>

definition registerHook :: "HookName \<Rightarrow> nat \<Rightarrow> bool \<Rightarrow> Module \<Rightarrow> Module" where
  "registerHook name k once st =
     st\<lparr>hooks := hooks st @ [\<lparr>hookName = name, hookResolves = k, hookOnce = once\<rparr>]\<rparr>"

definition resolvePromise :: "nat \<Rightarrow> Payload \<Rightarrow> Module \<Rightarrow> Module" where
  "resolvePromise k v st =
     (if k < length (promises st) \<and> promises st ! k = None
      then st\<lparr>promises := (promises st)[k := Some v]\<rparr>
      else st)"

fun invokeHooks :: "Hook list \<Rightarrow> Payload \<Rightarrow> Module \<Rightarrow> Module" where
  "invokeHooks [] v st = st"
| "invokeHooks (h # hs) v st =
     invokeHooks hs v
       (resolvePromise (hookResolves h) v
          (if hookOnce h then st\<lparr>hooks := remove1 h (hooks st)\<rparr> else st))"

definition triggerHook :: "HookName \<Rightarrow> Payload \<Rightarrow> Module \<Rightarrow> Module" where
  "triggerHook name v st = invokeHooks (filter (\<lambda>h. hookName h = name) (hooks st)) v st"

section \<open>String replacement\<close>

text \<open>
  \<open>String.prototype.replace\<close> and \<open>replaceAll\<close> for a search value that is a string,
  as the language defines them.  (A search value that is a regular expression is
  outside the model.)

  \<open>occursAt pat s i\<close>: the code units of \<open>pat\<close> stand in \<open>s\<close> from index \<open>i\<close> on.
  \<open>stringIndexOf\<close> is the language's StringIndexOf: the least index from \<open>fromIndex\<close>
  on where the search value occurs.
\<close>

definition occursAt :: "string \<Rightarrow> string \<Rightarrow> nat \<Rightarrow> bool" where
  "occursAt pat s i = (i + length pat \<le> length s \<and> take (length pat) (drop i s) = pat)"

definition stringIndexOf :: "string \<Rightarrow> string \<Rightarrow> nat \<Rightarrow> nat option" where
  "stringIndexOf s pat fromIndex = List.find (occursAt pat s) [fromIndex ..< Suc (length s)]"

text \<open>
  GetSubstitution with no captures: in the replacement, \<open>$$\<close> stands for a dollar
  sign, \<open>$&\<close> for the match, \<open>$`\<close> (a dollar sign and a backquote) for the text before
  the match and \<open>$'\<close> for the text after it; every other code unit stands for itself.
\<close>

fun getSubstitution :: "string \<Rightarrow> string \<Rightarrow> nat \<Rightarrow> string \<Rightarrow> string" where
  "getSubstitution matched str position [] = []"
| "getSubstitution matched str position [c] = [c]"
| "getSubstitution matched str position (c # d # r) =
     (if c = CHR ''$'' \<and> d = CHR ''$''
        then CHR ''$'' # getSubstitution matched str position r
      else if c = CHR ''$'' \<and> d = CHR 0x60
        then take position str @ getSubstitution matched str position r
      else if c = CHR ''$'' \<and> d = CHR ''&''
        then matched @ getSubstitution matched str position r
      else if c = CHR ''$'' \<and> d = CHR 0x27
        then drop (min (position + length matched) (length str)) str
             @ getSubstitution matched str position r
      else c # getSubstitution matched str position (d # r))"

definition jsReplace :: "string \<Rightarrow> string \<Rightarrow> string \<Rightarrow> string" where
  "jsReplace s pat val =
     (case stringIndexOf s pat 0 of
        None \<Rightarrow> s
      | Some p \<Rightarrow> take p s @ getSubstitution pat s p val @ drop (p + length pat) s)"

lemma stringIndexOf_bounds:
  "stringIndexOf s pat i = Some p \<Longrightarrow> i \<le> p \<and> p \<le> length s"
proof -
  assume "stringIndexOf s pat i = Some p"
  then have "p \<in> set [i ..< Suc (length s)]"
    unfolding stringIndexOf_def find_Some_iff by (metis nth_mem)
  then show ?thesis by auto
qed

text \<open>
  \<open>replaceAll\<close> first collects the positions of the matches, searching on from the end
  of each match (from the next index when the search value is empty), then builds the
  result from the text between the matches and the substitutions.
\<close>

function matchPositions :: "string \<Rightarrow> string \<Rightarrow> nat \<Rightarrow> nat list" where
  "matchPositions s pat fromIndex =
     (case stringIndexOf s pat fromIndex of
        None \<Rightarrow> []
      | Some p \<Rightarrow> p # matchPositions s pat (p + max 1 (length pat)))"
  by pat_completeness auto
termination
  by (relation "measure (\<lambda>(s, pat, i). Suc (length s) - i)")
     (auto dest: stringIndexOf_bounds)

declare matchPositions.simps [simp del]

fun buildReplaced :: "string \<Rightarrow> string \<Rightarrow> string \<Rightarrow> nat \<Rightarrow> nat list \<Rightarrow> string" where
  "buildReplaced s pat val endOfLastMatch [] = drop endOfLastMatch s"
| "buildReplaced s pat val endOfLastMatch (p # ps) =
     take (p - endOfLastMatch) (drop endOfLastMatch s)
       @ getSubstitution pat s p val
       @ buildReplaced s pat val (p + length pat) ps"

definition jsReplaceAll :: "string \<Rightarrow> string \<Rightarrow> string \<Rightarrow> string" where
  "jsReplaceAll s pat val = buildReplaced s pat val 0 (matchPositions s pat 0)"

section \<open>The functions of \<open>editor.ts\<close>\<close>

text \<open>
  Each function takes the module's state and returns its result, the new state, or
  both.  Reading a member of an unbound handle throws a TypeError (\<open>NotReady\<close>); every
  error of these functions is thrown before anything is written, so an error carries
  no state.
\<close>

definition getMonaco :: "Module \<Rightarrow> handle option" where
  "getMonaco st = monaco st"

definition getEditor :: "Module \<Rightarrow> handle option" where
  "getEditor st = editor st"

definition whenEditorReady :: "Module \<Rightarrow> nat \<times> Module" where
  "whenEditorReady st =
     (let k = length (promises st) in
      case (monaco st, editor st) of
        (Some mo, Some e) \<Rightarrow>
          (k, st\<lparr>promises := promises st @ [Some \<lparr>payloadMonaco = mo, payloadEditor = e\<rparr>]\<rparr>)
      | _ \<Rightarrow> (k, registerHook EDITOR_READY k True (st\<lparr>promises := promises st @ [None]\<rparr>)))"

text \<open>\<open>insert\<close> of the source; the name \<open>insert\<close> is taken in HOL.\<close>

definition insert_text :: "string \<Rightarrow> Module \<Rightarrow> error + Module" where
  "insert_text txt st =
     (case getEditor st of
        None \<Rightarrow> Inl NotReady
      | Some h \<Rightarrow>
          (case getMonaco st of
             None \<Rightarrow> Inl NotReady
           | Some mo \<Rightarrow>
               let sel = selectionRange (selection (widgets st h)) in
               Inr (updateWidget h
                 (focus
                   (executeEdits
                     (mkRange (endLineNumber sel) (endColumn sel) (endLineNumber sel) (endColumn sel))
                     (Some txt) (widgets st h))) st)))"

definition insertAt :: "Position \<Rightarrow> string \<Rightarrow> Module \<Rightarrow> error + Module" where
  "insertAt p txt st =
     (case getEditor st of
        None \<Rightarrow> Inl NotReady
      | Some h \<Rightarrow>
          (case getMonaco st of
             None \<Rightarrow> Inl NotReady
           | Some mo \<Rightarrow>
               Inr (updateWidget h
                 (focus
                   (setPosition p
                     (executeEdits
                       (mkRange (lineNumber p) (column p) (lineNumber p) (column p))
                       (Some txt) (widgets st h)))) st)))"

definition replaceLine :: "int \<Rightarrow> string \<Rightarrow> Module \<Rightarrow> error + Module" where
  "replaceLine line txt st =
     (case getEditor st of
        None \<Rightarrow> Inl NotReady
      | Some h \<Rightarrow>
          (case getLineLength (model (widgets st h)) line of
             Inl e \<Rightarrow> Inl e
           | Inr len \<Rightarrow>
               (case getMonaco st of
                  None \<Rightarrow> Inl NotReady
                | Some mo \<Rightarrow>
                    Inr (updateWidget h
                      (focus
                        (setPosition \<lparr>lineNumber = line, column = int (length txt) + 1\<rparr>
                          (executeEdits (mkRange line 1 line (len + 1)) (Some txt)
                             (widgets st h)))) st))))"

definition replaceLines :: "int \<Rightarrow> int \<Rightarrow> string \<Rightarrow> Module \<Rightarrow> error + Module" where
  "replaceLines lineStart lineEnd txt st =
     (case getEditor st of
        None \<Rightarrow> Inl NotReady
      | Some h \<Rightarrow>
          (case getLineLength (model (widgets st h)) lineEnd of
             Inl e \<Rightarrow> Inl e
           | Inr len \<Rightarrow>
               (case getMonaco st of
                  None \<Rightarrow> Inl NotReady
                | Some mo \<Rightarrow>
                    let lineEndPos = len + 1 in
                    Inr (updateWidget h
                      (focus
                        (setPosition \<lparr>lineNumber = lineEnd, column = lineEndPos\<rparr>
                          (executeEdits (mkRange lineStart 1 lineEnd lineEndPos) (Some txt)
                             (widgets st h)))) st))))"

definition deleteLine :: "int \<Rightarrow> Module \<Rightarrow> error + Module" where
  "deleteLine line st =
     (case getEditor st of
        None \<Rightarrow> Inl NotReady
      | Some h \<Rightarrow>
          (case getMonaco st of
             None \<Rightarrow> Inl NotReady
           | Some mo \<Rightarrow>
               Inr (updateWidget h
                 (focus
                   (setPosition \<lparr>lineNumber = line, column = 1\<rparr>
                     (executeEdits (mkRange line 1 (line + 1) 1) None (widgets st h)))) st)))"

definition getLineContent :: "int \<Rightarrow> Module \<Rightarrow> error + string" where
  "getLineContent line st =
     (case getEditor st of
        None \<Rightarrow> Inl NotReady
      | Some h \<Rightarrow> getLineContentM (model (widgets st h)) line)"

definition getLinesContent :: "int \<Rightarrow> int \<Rightarrow> Module \<Rightarrow> error + string" where
  "getLinesContent lineStart lineEnd st =
     (case getEditor st of
        None \<Rightarrow> Inl NotReady
      | Some h \<Rightarrow>
          (case getLineLength (model (widgets st h)) lineEnd of
             Inl e \<Rightarrow> Inl e
           | Inr lineEndLength \<Rightarrow>
               (case getMonaco st of
                  None \<Rightarrow> Inl NotReady
                | Some mo \<Rightarrow>
                    Inr (getValueInRange (model (widgets st h))
                           (mkRange lineStart 1 lineEnd (lineEndLength + 1))))))"

text \<open>
  \<open>getValue\<close> passes \<open>DefaultEndOfLine.LF\<close>, the number 1, where the widget reads an
  end-of-line preference; 1 is the preference for line feeds.
\<close>

definition getValue :: "Module \<Rightarrow> error + string" where
  "getValue st =
     (case getEditor st of
        None \<Rightarrow> Inl NotReady
      | Some h \<Rightarrow>
          (case getMonaco st of
             None \<Rightarrow> Inl NotReady
           | Some mo \<Rightarrow> Inr (getValueM (model (widgets st h)) PreferLF)))"

definition setValue :: "string \<Rightarrow> Module \<Rightarrow> error + Module" where
  "setValue txt st =
     (case editor st of
        None \<Rightarrow> Inl NotReady
      | Some h \<Rightarrow>
          let m = model (widgets st h);
              maxLine = getLineCount m
          in (case getLineLength m maxLine of
                Inl e \<Rightarrow> Inl e
              | Inr endLineLength \<Rightarrow>
                  (case getMonaco st of
                     None \<Rightarrow> Inl NotReady
                   | Some mo \<Rightarrow>
                       Inr (updateWidget h
                         (focus
                           (executeEdits (mkRange 1 1 maxLine (endLineLength + 1)) (Some txt)
                              (widgets st h))) st))))"

text \<open>
  \<open>replaceValue\<close> reads the value with the buffer's own terminators
  (\<open>model.getValue()\<close> with no preference).
\<close>

definition replaceValue :: "string \<Rightarrow> string \<Rightarrow> bool \<Rightarrow> Module \<Rightarrow> error + Module" where
  "replaceValue search val replaceAll st =
     (case getEditor st of
        None \<Rightarrow> Inl NotReady
      | Some h \<Rightarrow>
          let content = getValueM (model (widgets st h)) TextDefined;
              txt = (if replaceAll then jsReplaceAll content search val
                     else jsReplace content search val)
          in setValue txt st)"

definition toggleWrap :: "Module \<Rightarrow> error + Module" where
  "toggleWrap st =
     (case getEditor st of
        None \<Rightarrow> Inl NotReady
      | Some h \<Rightarrow>
          (case monaco st of
             None \<Rightarrow> Inl NotReady
           | Some mo \<Rightarrow>
               let isWrapping = isViewportWrapping (widgets st h) in
               if isDominatedByLongLines (widgets st h)
               then Inr (showToast ''warning'' ''Word warp dominated by long lines'' st)
               else Inr (commit (SetWordWrap (if isWrapping then WrapOff else WrapOn)) st)))"

definition toggleTypewriterMode :: "Module \<Rightarrow> Module" where
  "toggleTypewriterMode st = commit (SetTypewriterMode (\<not> typewriterMode (store st))) st"

text \<open>The handler the module registers on \<open>MONACO_READY\<close>.\<close>

definition onMonacoReady :: "Payload \<Rightarrow> Module \<Rightarrow> Module" where
  "onMonacoReady payload st =
     triggerHook EDITOR_READY payload
       (st\<lparr>monaco := Some (payloadMonaco payload), editor := Some (payloadEditor payload)\<rparr>)"

text \<open>
  The handler of caret-position changes (typewriter mode).  It is installed on the
  editor the promise of \<open>whenEditorReady\<close> resolved with, \<open>h\<close> here.  The reason of an
  event is one of the widget's numeric codes.
\<close>

record CursorPositionChangedEvent =
  eventPosition :: Position
  eventSource :: string
  eventReason :: int

definition onDidChangeCursorPosition ::
    "handle \<Rightarrow> CursorPositionChangedEvent \<Rightarrow> Module \<Rightarrow> Module" where
  "onDidChangeCursorPosition h e st =
     (if typewriterMode (store st) then
        (let sources = [''deleteLeft'', ''keyboard''] in
         if eventSource e \<in> set sources \<and> (eventReason e = 0 \<or> eventReason e = 3)
         then updateWidget h (revealPositionInCenter (eventPosition e) (widgets st h)) st
         else st)
      else st)"

section \<open>The module as a transition system\<close>

text \<open>
  What can happen to the module's state: a call of one of its functions that write,
  the \<open>MONACO_READY\<close> hook firing (which runs \<open>onMonacoReady\<close>), another module firing
  \<open>EDITOR_READY\<close>, and the widget reporting a caret move.  A call that throws leaves
  the state as it was.  The functions that only read, and the handlers that only push
  settings into the widget once \<open>whenEditorReady\<close> has resolved, write nothing of this
  state besides what their call of \<open>whenEditorReady\<close> writes.
\<close>

datatype Action =
    CallWhenEditorReady
  | CallInsert string
  | CallInsertAt Position string
  | CallReplaceLine int string
  | CallReplaceLines int int string
  | CallDeleteLine int
  | CallSetValue string
  | CallReplaceValue string string bool
  | CallToggleWrap
  | CallToggleTypewriterMode
  | FireMonacoReady Payload
  | FireEditorReady Payload
  | CursorMoved handle CursorPositionChangedEvent

definition orUnchanged :: "Module \<Rightarrow> error + Module \<Rightarrow> Module" where
  "orUnchanged st r = (case r of Inl e \<Rightarrow> st | Inr st' \<Rightarrow> st')"

fun step :: "Action \<Rightarrow> Module \<Rightarrow> Module" where
  "step CallWhenEditorReady st = snd (whenEditorReady st)"
| "step (CallInsert txt) st = orUnchanged st (insert_text txt st)"
| "step (CallInsertAt p txt) st = orUnchanged st (insertAt p txt st)"
| "step (CallReplaceLine line txt) st = orUnchanged st (replaceLine line txt st)"
| "step (CallReplaceLines ls le txt) st = orUnchanged st (replaceLines ls le txt st)"
| "step (CallDeleteLine line) st = orUnchanged st (deleteLine line st)"
| "step (CallSetValue txt) st = orUnchanged st (setValue txt st)"
| "step (CallReplaceValue search val replaceAll) st =
     orUnchanged st (replaceValue search val replaceAll st)"
| "step CallToggleWrap st = orUnchanged st (toggleWrap st)"
| "step CallToggleTypewriterMode st = toggleTypewriterMode st"
| "step (FireMonacoReady payload) st = onMonacoReady payload st"
| "step (FireEditorReady payload) st = triggerHook EDITOR_READY payload st"
| "step (CursorMoved h e) st = onDidChangeCursorPosition h e st"

fun run :: "Action list \<Rightarrow> Module \<Rightarrow> Module" where
  "run [] st = st"
| "run (a # as) st = run as (step a st)"

text \<open>
  The actions that fire \<open>EDITOR_READY\<close> (\<open>MONACO_READY\<close> does, through the module's
  handler), and the one that binds the handles.
\<close>

fun firesEditorReady :: "Action \<Rightarrow> bool" where
  "firesEditorReady (FireMonacoReady p) = True"
| "firesEditorReady (FireEditorReady p) = True"
| "firesEditorReady a = False"

fun bindsHandles :: "Action \<Rightarrow> bool" where
  "bindsHandles (FireMonacoReady p) = True"
| "bindsHandles a = False"

text \<open>
  A promise of \<open>whenEditorReady\<close> is waiting when it is pending and its \<open>resolve\<close> is
  registered on \<open>EDITOR_READY\<close>.
\<close>

definition waiting :: "nat \<Rightarrow> Module \<Rightarrow> bool" where
  "waiting k st =
     (k < length (promises st) \<and> promises st ! k = None \<and>
      (\<exists>h\<in>set (hooks st). hookName h = EDITOR_READY \<and> hookResolves h = k))"

section \<open>Example states\<close>

text \<open>
  A fresh editor over a text, with line-feed terminators, that keeps its selection
  across an edit; the module as loaded, with nothing bound; and the module after
  \<open>MONACO_READY\<close> has fired with the handles \<open>0\<close> and \<open>1\<close>.
\<close>

definition newEditor :: "string \<Rightarrow> Editor" where
  "newEditor s =
     \<lparr>model = createModel s EOL_LF,
      selection = collapsedAt \<lparr>lineNumber = 1, column = 1\<rparr>,
      hasFocus = False, edits = [], revealed = [],
      isViewportWrapping = False, isDominatedByLongLines = False,
      trackSelection = (\<lambda>m r t sel. sel)\<rparr>"

definition loadedModule :: "string \<Rightarrow> Module" where
  "loadedModule s =
     \<lparr>monaco = None, editor = None, widgets = (\<lambda>h. newEditor s),
      store = \<lparr>wordWrap = WrapOff, typewriterMode = False\<rparr>,
      committed = [], toasts = [], hooks = [], promises = []\<rparr>"

definition readyModule :: "string \<Rightarrow> Module" where
  "readyModule s = onMonacoReady \<lparr>payloadMonaco = 0, payloadEditor = 1\<rparr> (loadedModule s)"

text \<open>The text \<open>a\<close>, \<open>b\<close>, \<open>c\<close> on three lines.\<close>

definition abc :: string where
  "abc = ''a'' @ [LF] @ ''b'' @ [LF] @ ''c''"

text \<open>The text \<open>x\<close>, \<open>y\<close> on two lines.\<close>

definition xy :: string where
  "xy = ''x'' @ [LF] @ ''y''"

text \<open>The text \<open>ab\<close>, \<open>ab\<close> on two lines.\<close>

definition abab :: string where
  "abab = ''ab'' @ [LF] @ ''ab''"

text \<open>
  The ready module with an editor whose viewport is dominated by long lines, and with
  one whose viewport is wrapping; a caret event at line 2, column 1.
\<close>

definition longLinesModule :: Module where
  "longLinesModule =
     updateWidget 1 ((newEditor abc)\<lparr>isDominatedByLongLines := True\<rparr>) (readyModule abc)"

definition wrappingModule :: Module where
  "wrappingModule =
     updateWidget 1 ((newEditor abc)\<lparr>isViewportWrapping := True\<rparr>) (readyModule abc)"

definition cursorEvent :: "string \<Rightarrow> int \<Rightarrow> CursorPositionChangedEvent" where
  "cursorEvent src reason =
     \<lparr>eventPosition = \<lparr>lineNumber = 2, column = 1\<rparr>, eventSource = src, eventReason = reason\<rparr>"

section \<open>Notions of the specification\<close>

text \<open>
  The end of a text that has been put into the buffer from column 1 of line
  \<open>startLine\<close> on: the line its last line is on, and the column after that line's
  last code unit.
\<close>

definition insertedEnd :: "int \<Rightarrow> string \<Rightarrow> Position" where
  "insertedEnd startLine txt =
     \<lparr>lineNumber = startLine + int (length (splitLines txt)) - 1,
      column = int (length (last (splitLines txt))) + 1\<rparr>"

section \<open>Facts about the example states\<close>

lemma splitLines_abc: "splitLines abc = [''a'', ''b'', ''c'']"
  by (simp add: abc_def LF_def CR_def)

lemma readyModule_handles:
  "getEditor (readyModule s) = Some 1" "getMonaco (readyModule s) = Some 0"
  "widgets (readyModule s) h = newEditor s"
  by (simp_all add: readyModule_def onMonacoReady_def triggerHook_def loadedModule_def
      getEditor_def getMonaco_def)

lemma newEditor_lines: "bufLines (model (newEditor s)) = splitLines s"
  by (simp add: newEditor_def createModel_def)

lemma newEditor_eol: "bufEOL (model (newEditor s)) = EOL_LF"
  by (simp add: newEditor_def createModel_def)

lemma readyModule_fields:
  "store (readyModule s) = \<lparr>wordWrap = WrapOff, typewriterMode = False\<rparr>"
  "committed (readyModule s) = []" "toasts (readyModule s) = []"
  "hooks (readyModule s) = []" "promises (readyModule s) = []"
  by (simp_all add: readyModule_def onMonacoReady_def triggerHook_def loadedModule_def)

lemma updateWidget_fields:
  "getEditor (updateWidget h ed st) = getEditor st"
  "getMonaco (updateWidget h ed st) = getMonaco st"
  "store (updateWidget h ed st) = store st"
  "committed (updateWidget h ed st) = committed st"
  "toasts (updateWidget h ed st) = toasts st"
  "hooks (updateWidget h ed st) = hooks st"
  "promises (updateWidget h ed st) = promises st"
  by (simp_all add: updateWidget_def getEditor_def getMonaco_def)

lemma loadedModule_fields:
  "monaco (loadedModule s) = None" "editor (loadedModule s) = None"
  "promises (loadedModule s) = []" "hooks (loadedModule s) = []"
  by (simp_all add: loadedModule_def)

section \<open>Lines and lists\<close>

lemma splitLines_not_Nil: "splitLines s \<noteq> []"
  by (induction s rule: splitLines.induct) (auto split: list.splits)

lemma splitLines_noEOL: "noEOL s \<Longrightarrow> splitLines s = [s]"
  by (induction s rule: splitLines.induct) (auto simp: noEOL_def split: list.splits)

lemma spliceLines_whole: "ns \<noteq> [] \<Longrightarrow> spliceLines [] ns [] = ns"
  by (cases ns) (simp_all add: spliceLines_def)

lemma nth_take_append:
  "i \<le> length xs \<Longrightarrow> j < length ys \<Longrightarrow> (take i xs @ ys @ zs) ! (i + j) = ys ! j"
  by (simp add: nth_append)

lemma length_take_append_drop:
  "i \<le> j \<Longrightarrow> j \<le> length xs \<Longrightarrow>
   length (take i xs @ ys @ drop j xs) = length xs + length ys - (j - i)"
  by simp

lemma splitLines_LF: "splitLines (LF # s) = [] # splitLines s"
  by (cases s) (simp_all add: LF_def CR_def)

lemma splitLines_line_LF: "noEOL l \<Longrightarrow> splitLines (l @ LF # s) = l # splitLines s"
proof (induction l)
  case Nil
  show ?case by (simp add: splitLines_LF)
next
  case (Cons c l)
  then have c: "c \<noteq> LF" "c \<noteq> CR" and l: "noEOL l"
    by (auto simp: noEOL_def)
  obtain d r where dr: "l @ LF # s = d # r"
    by (cases "l @ LF # s") auto
  have "splitLines (c # d # r) = (c # l) # splitLines s"
    using c Cons.IH [OF l] by (simp add: dr [symmetric] del: splitLines.simps(3)) (simp add: dr)
  then show ?case by (simp add: dr)
qed

lemma splitLines_joinLines:
  "ls \<noteq> [] \<Longrightarrow> list_all noEOL ls \<Longrightarrow> splitLines (joinLines [LF] ls) = ls"
proof (induction "[LF]" ls rule: joinLines.induct)
  case 1
  then show ?case by simp
next
  case (2 l)
  then show ?case by (simp add: splitLines_noEOL)
next
  case (3 l k ls)
  then show ?case by (simp add: splitLines_line_LF)
qed

lemma joinLines_LF_no_CR:
  "list_all noEOL ls \<Longrightarrow> CR \<notin> set (joinLines [LF] ls)"
  by (induction "[LF]" ls rule: joinLines.induct) (auto simp: noEOL_def LF_def CR_def)

lemma splitLines_lines_noEOL: "list_all noEOL (splitLines s)"
  by (induction s rule: splitLines.induct) (auto simp: noEOL_def split: list.splits)

lemma wfModel_createModel: "wfModel (createModel s e)"
  by (simp add: wfModel_def createModel_def splitLines_not_Nil splitLines_lines_noEOL)

section \<open>Validated positions and ranges\<close>

lemma validatePosition_col1:
  "1 \<le> n \<Longrightarrow> n \<le> getLineCount m \<Longrightarrow>
   validatePosition m \<lparr>lineNumber = n, column = 1\<rparr> = \<lparr>lineNumber = n, column = 1\<rparr>"
  by (simp add: validatePosition_def Let_def)

lemma applyEdit_deleteLine:
  assumes "1 \<le> k" "k < getLineCount m"
  shows "bufLines (applyEdit m (mkRange k 1 (k + 1) 1) None) =
           take (nat (k - 1)) (bufLines m) @ drop (nat k) (bufLines m)"
proof -
  have r: "validateRange m (mkRange k 1 (k + 1) 1) =
        \<lparr>startLineNumber = k, startColumn = 1, endLineNumber = k + 1, endColumn = 1\<rparr>"
    using assms by (simp add: validateRange_def mkRange_def validatePosition_col1)
  have n: "nat k < length (bufLines m)"
    using assms by (simp add: getLineCount_def)
  have "bufLines m ! nat k # drop (Suc (nat k)) (bufLines m) = drop (nat k) (bufLines m)"
    using n by (rule Cons_nth_drop_Suc)
  then show ?thesis
    using assms by (simp add: applyEdit_def r Let_def spliceLines_def nat_add_distrib)
qed

section \<open>Edits of whole lines\<close>

lemma validatePosition_lineEnd:
  assumes "1 \<le> n" "n \<le> getLineCount m"
  shows "validatePosition m \<lparr>lineNumber = n, column = lineMaxColumn m n\<rparr>
         = \<lparr>lineNumber = n, column = lineMaxColumn m n\<rparr>"
  using assms by (simp add: validatePosition_def Let_def lineMaxColumn_def)

lemma validateRange_lines:
  assumes "1 \<le> ls" "ls \<le> le" "le \<le> getLineCount m"
  shows "validateRange m (mkRange ls 1 le (lineMaxColumn m le))
         = \<lparr>startLineNumber = ls, startColumn = 1,
            endLineNumber = le, endColumn = lineMaxColumn m le\<rparr>"
proof -
  have c: "1 \<le> lineMaxColumn m le" by (simp add: lineMaxColumn_def)
  have mk: "mkRange ls 1 le (lineMaxColumn m le)
         = \<lparr>startLineNumber = ls, startColumn = 1,
            endLineNumber = le, endColumn = lineMaxColumn m le\<rparr>"
    using assms c by (simp add: mkRange_def)
  have s: "validatePosition m \<lparr>lineNumber = ls, column = 1\<rparr> = \<lparr>lineNumber = ls, column = 1\<rparr>"
    using assms by (intro validatePosition_col1) simp_all
  have e: "validatePosition m \<lparr>lineNumber = le, column = lineMaxColumn m le\<rparr>
         = \<lparr>lineNumber = le, column = lineMaxColumn m le\<rparr>"
    using assms by (intro validatePosition_lineEnd) simp_all
  show ?thesis
    unfolding mk by (simp add: validateRange_def s e mk)
qed

lemma applyEdit_lines:
  assumes "1 \<le> ls" "ls \<le> le" "le \<le> getLineCount m"
  shows "bufLines (applyEdit m (mkRange ls 1 le (lineMaxColumn m le)) (Some txt))
         = take (nat (ls - 1)) (bufLines m) @ splitLines txt @ drop (nat le) (bufLines m)"
proof -
  have n: "Suc (nat (le - 1)) = nat le" using assms by simp
  have post: "drop (nat (lineMaxColumn m le - 1)) (bufLines m ! nat (le - 1)) = []"
    by (simp add: lineMaxColumn_def)
  show ?thesis
    unfolding applyEdit_def validateRange_lines [OF assms]
    by (simp add: Let_def post n spliceLines_whole splitLines_not_Nil)
qed

lemma getLineLength_ok:
  "1 \<le> n \<Longrightarrow> n \<le> getLineCount m \<Longrightarrow> getLineLength m n = Inr (lineMaxColumn m n - 1)"
  by (simp add: getLineLength_def lineMaxColumn_def)


lemma getLineLength_bad:
  "n < 1 \<or> n > getLineCount m \<Longrightarrow> getLineLength m n = Inl IllegalLineNumber"
  by (simp add: getLineLength_def)

section \<open>Effects of the widget's operations\<close>

lemma executeEdits_model: "model (executeEdits r txt ed) = applyEdit (model ed) r txt"
  by (simp add: executeEdits_def)

lemma executeEdits_edits: "edits (executeEdits r txt ed) = edits ed @ [(r, txt)]"
  by (simp add: executeEdits_def)

lemma focus_setPosition_model: "model (focus (setPosition p ed)) = model ed"
  by (simp add: focus_def setPosition_def)

lemma focus_setPosition_edits: "edits (focus (setPosition p ed)) = edits ed"
  by (simp add: focus_def setPosition_def)

lemma focus_setPosition_caret:
  "getPosition (focus (setPosition p ed)) = validatePosition (model ed) p"
  by (simp add: focus_def setPosition_def getPosition_def collapsedAt_def)

lemma updateWidget_same: "widgets (updateWidget h ed st) h = ed"
  by (simp add: updateWidget_def)

lemma replaceLines_run:
  assumes "getEditor st = Some h" "getMonaco st = Some mo"
    and "1 \<le> le" "le \<le> getLineCount (model (widgets st h))"
  shows "replaceLines ls le txt st =
     Inr (updateWidget h
       (focus (setPosition \<lparr>lineNumber = le, column = lineMaxColumn (model (widgets st h)) le\<rparr>
          (executeEdits (mkRange ls 1 le (lineMaxColumn (model (widgets st h)) le)) (Some txt)
             (widgets st h)))) st)"
  using assms by (simp add: replaceLines_def getLineLength_ok Let_def)

lemma replaceLine_run:
  assumes "getEditor st = Some h" "getMonaco st = Some mo"
    and "1 \<le> line" "line \<le> getLineCount (model (widgets st h))"
  shows "replaceLine line txt st =
     Inr (updateWidget h
       (focus (setPosition \<lparr>lineNumber = line, column = int (length txt) + 1\<rparr>
          (executeEdits (mkRange line 1 line (lineMaxColumn (model (widgets st h)) line)) (Some txt)
             (widgets st h)))) st)"
  using assms by (simp add: replaceLine_def getLineLength_ok Let_def)

lemma setValue_run:
  assumes "getEditor st = Some h" "getMonaco st = Some mo"
    and "bufLines (model (widgets st h)) \<noteq> []"
  shows "setValue txt st =
     Inr (updateWidget h
       (focus
          (executeEdits
             (mkRange 1 1 (getLineCount (model (widgets st h)))
                (lineMaxColumn (model (widgets st h)) (getLineCount (model (widgets st h)))))
             (Some txt) (widgets st h))) st)"
proof -
  have "1 \<le> getLineCount (model (widgets st h))"
    using assms(3) by (cases "bufLines (model (widgets st h))") (simp_all add: getLineCount_def)
  then show ?thesis
    using assms(1,2) by (simp add: setValue_def getEditor_def getLineLength_ok Let_def)
qed

lemma applyEdit_all:
  assumes "bufLines m \<noteq> []"
  shows "applyEdit m (mkRange 1 1 (getLineCount m) (lineMaxColumn m (getLineCount m))) (Some txt)
         = m\<lparr>bufLines := splitLines txt\<rparr>"
proof -
  have n: "1 \<le> getLineCount m"
    using assms by (cases "bufLines m") (simp_all add: getLineCount_def)
  have "bufLines (applyEdit m (mkRange 1 1 (getLineCount m) (lineMaxColumn m (getLineCount m)))
           (Some txt)) = splitLines txt"
    using n by (simp add: applyEdit_lines) (simp add: getLineCount_def)
  moreover have "bufEOL (applyEdit m r t) = bufEOL m" for r t
    by (simp add: applyEdit_def Let_def)
  ultimately show ?thesis by simp
qed

section \<open>Occurrences of a search string\<close>

lemma stringIndexOf_Some:
  assumes "stringIndexOf s pat i = Some p"
  shows "i \<le> p" and "occursAt pat s p" and "\<And>j. i \<le> j \<Longrightarrow> j < p \<Longrightarrow> \<not> occursAt pat s j"
proof -
  from assms obtain k where k: "k < length [i ..< Suc (length s)]"
      "occursAt pat s ([i ..< Suc (length s)] ! k)" "p = [i ..< Suc (length s)] ! k"
      "\<forall>j<k. \<not> occursAt pat s ([i ..< Suc (length s)] ! j)"
    unfolding stringIndexOf_def find_Some_iff by blast
  have kk: "k < Suc (length s) - i" using k(1) by (simp only: length_upt)
  then have p: "p = i + k" using k(3) by (simp only: nth_upt)
  show "i \<le> p" using p by simp
  show "occursAt pat s p" using k(2) k(3) by simp
  show "\<not> occursAt pat s j" if "i \<le> j" "j < p" for j
  proof -
    have jk: "j - i < k" using that p by simp
    then have "j - i < Suc (length s) - i" using kk by simp
    then have "[i ..< Suc (length s)] ! (j - i) = j"
      using that(1) by (simp only: nth_upt)
    then show ?thesis using k(4) jk by metis
  qed
qed

lemma occursAt_le: "occursAt pat s j \<Longrightarrow> j \<le> length s"
  by (simp add: occursAt_def)

lemma stringIndexOf_None:
  assumes "stringIndexOf s pat i = None" and "i \<le> j"
  shows "\<not> occursAt pat s j"
proof
  assume o: "occursAt pat s j"
  then have "j \<in> set [i ..< Suc (length s)]"
    using assms(2) occursAt_le [OF o] by (simp only: set_upt atLeastLessThan_iff) simp
  then show False
    using assms(1) o unfolding stringIndexOf_def find_None_iff by blast
qed

lemma matchPositions_occur:
  "p \<in> set (matchPositions s pat i) \<Longrightarrow> i \<le> p \<and> occursAt pat s p"
proof (induction s pat i rule: matchPositions.induct)
  case (1 s pat i)
  show ?case
  proof (cases "stringIndexOf s pat i")
    case None
    then show ?thesis using "1.prems" by (simp add: matchPositions.simps [of s pat i])
  next
    case (Some q)
    from "1.prems" have "p = q \<or> p \<in> set (matchPositions s pat (q + max 1 (length pat)))"
      by (simp add: matchPositions.simps [of s pat i] Some)
    then show ?thesis
    proof
      assume "p = q"
      then show ?thesis using stringIndexOf_Some(1,2) [OF Some] by simp
    next
      assume "p \<in> set (matchPositions s pat (q + max 1 (length pat)))"
      from "1.IH" [OF Some this] stringIndexOf_Some(1) [OF Some]
      show ?thesis by simp
    qed
  qed
qed

lemma matchPositions_apart:
  "sorted_wrt (\<lambda>p q. p + max 1 (length pat) \<le> q) (matchPositions s pat i)"
proof (induction s pat i rule: matchPositions.induct)
  case (1 s pat i)
  show ?case
  proof (cases "stringIndexOf s pat i")
    case None
    then show ?thesis by (simp add: matchPositions.simps [of s pat i])
  next
    case (Some q)
    have "\<forall>p\<in>set (matchPositions s pat (q + max 1 (length pat))). q + max 1 (length pat) \<le> p"
      using matchPositions_occur by blast
    then show ?thesis
      using "1.IH" [OF Some] by (simp add: matchPositions.simps [of s pat i] Some)
  qed
qed

lemma matchPositions_cover:
  "occursAt pat s j \<Longrightarrow> i \<le> j \<Longrightarrow>
   \<exists>p\<in>set (matchPositions s pat i). p \<le> j \<and> j < p + max 1 (length pat)"
proof (induction s pat i rule: matchPositions.induct)
  case (1 s pat i)
  show ?case
  proof (cases "stringIndexOf s pat i")
    case None
    then show ?thesis using stringIndexOf_None "1.prems" by blast
  next
    case (Some q)
    have qj: "q \<le> j"
      using stringIndexOf_Some(3) [OF Some, of j] "1.prems" by force
    show ?thesis
    proof (cases "j < q + max 1 (length pat)")
      case True
      then show ?thesis using qj by (simp add: matchPositions.simps [of s pat i] Some)
    next
      case False
      then have "q + max 1 (length pat) \<le> j" by simp
      from "1.IH" [OF Some "1.prems"(1) this]
      show ?thesis by (simp add: matchPositions.simps [of s pat i] Some)
    qed
  qed
qed

lemma matchPositions_first:
  assumes "occursAt pat s j"
  shows "matchPositions s pat 0 \<noteq> [] \<and> hd (matchPositions s pat 0) \<le> j"
proof (cases "stringIndexOf s pat 0")
  case None
  then show ?thesis using stringIndexOf_None assms by blast
next
  case (Some q)
  have "q \<le> j" using stringIndexOf_Some(3) [OF Some, of j] assms by force
  then show ?thesis by (simp add: matchPositions.simps [of s pat 0] Some)
qed

lemma jsReplace_build:
  "jsReplace s pat val = buildReplaced s pat val 0 (take 1 (matchPositions s pat 0))"
  by (cases "stringIndexOf s pat 0")
     (simp_all add: jsReplace_def matchPositions.simps [of s pat 0])

lemma getSubstitution_plain:
  "CHR ''$'' \<notin> set val \<Longrightarrow> getSubstitution matched str position val = val"
  by (induction matched str position val rule: getSubstitution.induct) auto


lemma wholeRange:
  assumes "bufLines m \<noteq> []"
  shows "mkRange 1 1 (getLineCount m) (lineMaxColumn m (getLineCount m)) =
         \<lparr>startLineNumber = 1, startColumn = 1, endLineNumber = getLineCount m,
          endColumn = int (length (last (bufLines m))) + 1\<rparr>"
proof -
  have n: "1 \<le> getLineCount m"
    using assms by (cases "bufLines m") (simp_all add: getLineCount_def)
  have "nat (getLineCount m - 1) = length (bufLines m) - 1"
    by (simp add: getLineCount_def)
  then have "bufLines m ! nat (getLineCount m - 1) = last (bufLines m)"
    using assms by (simp add: last_conv_nth)
  then show ?thesis
    using n by (simp add: mkRange_def lineMaxColumn_def)
qed

section \<open>Evaluating the examples\<close>

lemma splitLines_xy: "splitLines xy = [''x'', ''y'']"
  by (simp add: xy_def LF_def CR_def)

lemma length_xy: "length xy = 3"
  by (simp add: xy_def)

lemmas run_defs = newEditor_eol
  replaceLines_def replaceLine_def getLineLength_def getLineCount_def
  readyModule_handles newEditor_lines splitLines_abc
  executeEdits_model focus_setPosition_model focus_setPosition_caret updateWidget_same
  applyEdit_def validateRange_def validatePosition_def mkRange_def lineMaxColumn_def
  spliceLines_def Let_def noEOL_def LF_def CR_def

lemma splitLines_abab: "splitLines abab = [''ab'', ''ab'']"
  by (simp add: abab_def LF_def CR_def)

lemma value_abab: "getValueM (model (newEditor abab)) TextDefined = abab"
proof -
  have "joinLines [LF] [''ab'', ''ab''] = abab"
    by (simp add: abab_def)
  then show ?thesis
    by (simp add: getValueM_def newEditor_lines newEditor_eol splitLines_abab)
qed

lemma stringIndexOf_abab:
  "stringIndexOf abab ''b'' 0 = Some 1"
  "stringIndexOf abab ''b'' 2 = Some 4"
  "stringIndexOf abab ''b'' 5 = None"
  by (simp_all add: stringIndexOf_def occursAt_def abab_def LF_def)

lemma matchPositions_abab: "matchPositions abab ''b'' 0 = [1, 4]"
proof -
  have "matchPositions abab ''b'' 5 = []"
    by (simp add: matchPositions.simps [of abab "''b''" 5] stringIndexOf_abab)
  then have "matchPositions abab ''b'' 2 = [4]"
    by (simp add: matchPositions.simps [of abab "''b''" 2] stringIndexOf_abab)
  then show ?thesis
    by (simp add: matchPositions.simps [of abab "''b''" 0] stringIndexOf_abab numeral_2_eq_2)
qed

lemma buildReplaced_abab:
  "buildReplaced abab ''b'' ''X'' 0 [1, 4] = ''aX'' @ [LF] @ ''aX''"
  "buildReplaced abab ''b'' ''X'' 0 (take 1 [1, 4]) = ''aX'' @ [LF] @ ''ab''"
  by (simp_all add: abab_def)

section \<open>Deleting a line\<close>

text \<open>
  C4.  On a buffer of \<open>N\<close> lines and for \<open>1 \<le> k < N\<close>, \<open>deleteLine k\<close> issues one
  edit that replaces the range from line \<open>k\<close> column 1 to line \<open>k + 1\<close> column 1 with
  nothing.  Line \<open>k\<close> and its terminator go: the lines before and after it stay, the
  line count becomes \<open>N - 1\<close>, \<open>getLineContent k\<close> then returns what line \<open>k + 1\<close> was,
  and the caret is at line \<open>k\<close>, column 1.
\<close>

theorem deleteLine_removes_line:
  assumes "getEditor st = Some h" and "getMonaco st = Some mo"
    and "1 \<le> k" and "k < getLineCount (model (widgets st h))"
  shows "\<exists>st'. deleteLine k st = Inr st' \<and>
           edits (widgets st' h) =
             edits (widgets st h)
               @ [(\<lparr>startLineNumber = k, startColumn = 1,
                     endLineNumber = k + 1, endColumn = 1\<rparr>, None)] \<and>
           bufLines (model (widgets st' h)) =
             take (nat (k - 1)) (bufLines (model (widgets st h)))
               @ drop (nat k) (bufLines (model (widgets st h))) \<and>
           getLineCount (model (widgets st' h)) = getLineCount (model (widgets st h)) - 1 \<and>
           getLineContent k st' = Inr (bufLines (model (widgets st h)) ! nat k) \<and>
           getLineContent (k + 1) st = Inr (bufLines (model (widgets st h)) ! nat k) \<and>
           getPosition (widgets st' h) = \<lparr>lineNumber = k, column = 1\<rparr>"
proof -
  let ?ed = "widgets st h"
  let ?r = "mkRange k 1 (k + 1) 1"
  let ?ed' = "focus (setPosition \<lparr>lineNumber = k, column = 1\<rparr> (executeEdits ?r None ?ed))"
  let ?st' = "updateWidget h ?ed' st"
  have run: "deleteLine k st = Inr ?st'"
    using assms(1,2) by (simp add: deleteLine_def)
  have w: "widgets ?st' h = ?ed'"
    by (simp add: updateWidget_def)
  have e: "getEditor ?st' = Some h"
    using assms(1) by (simp add: getEditor_def updateWidget_def)
  have m: "model ?ed' = applyEdit (model ?ed) ?r None"
    by (simp add: focus_def setPosition_def executeEdits_def)
  have ls: "bufLines (model ?ed') =
      take (nat (k - 1)) (bufLines (model ?ed)) @ drop (nat k) (bufLines (model ?ed))"
    unfolding m using assms(3,4) by (rule applyEdit_deleteLine)
  have len: "getLineCount (model ?ed') = getLineCount (model ?ed) - 1"
    using assms(3,4) by (simp add: getLineCount_def ls)
  have nth: "bufLines (model ?ed') ! nat (k - 1) = bufLines (model ?ed) ! nat k"
    using assms(3,4) by (simp add: ls getLineCount_def nth_append nat_diff_distrib)
  have c1: "getLineContent k ?st' = Inr (bufLines (model ?ed) ! nat k)"
    using assms(3,4) by (simp only: getLineContent_def e w option.case getLineContentM_def len nth) simp
  have c2: "getLineContent (k + 1) st = Inr (bufLines (model ?ed) ! nat k)"
    using assms by (simp add: getLineContent_def getLineContentM_def)
  have ed: "edits ?ed' = edits ?ed @ [(?r, None)]"
    by (simp add: focus_def setPosition_def executeEdits_def)
  have r: "?r = \<lparr>startLineNumber = k, startColumn = 1, endLineNumber = k + 1, endColumn = 1\<rparr>"
    by (simp add: mkRange_def)
  have m1: "model (executeEdits ?r None ?ed) = model ?ed'"
    by (simp add: focus_def setPosition_def)
  have cnt: "getLineCount (model (executeEdits ?r None ?ed)) = getLineCount (model ?ed) - 1"
    using len by (simp only: m1)
  have "validatePosition (model (executeEdits ?r None ?ed)) \<lparr>lineNumber = k, column = 1\<rparr>
      = \<lparr>lineNumber = k, column = 1\<rparr>"
    using assms(3,4) by (intro validatePosition_col1) (simp_all add: cnt)
  then have pos: "getPosition ?ed' = \<lparr>lineNumber = k, column = 1\<rparr>"
    by (simp add: getPosition_def focus_def setPosition_def collapsedAt_def)
  show ?thesis
    using run w ls len c1 c2 ed r pos by (intro exI[of _ ?st']) (simp only: simp_thms)
qed


theorem deleteLine_removes_line_witness:
  "\<exists>st'. deleteLine 2 (readyModule abc) = Inr st' \<and>
         bufLines (model (widgets st' 1)) = [''a'', ''c''] \<and>
         getLineCount (model (widgets st' 1)) = 2 \<and>
         getLineContent 2 st' = Inr ''c'' \<and>
         getPosition (widgets st' 1) = \<lparr>lineNumber = 2, column = 1\<rparr>"
  using deleteLine_removes_line [of "readyModule abc" 1 0 2]
  by (auto simp add: readyModule_handles newEditor_lines splitLines_abc getLineCount_def)

section \<open>Replacing lines\<close>

text \<open>
  C1, as the code has it.  The claim puts the caret at the end of the inserted text
  after every in-range \<open>replaceLine\<close> and \<open>replaceLines\<close>.  The code sets it to
  \<open>(line, text.length + 1)\<close>, respectively to the old end of the replaced region
  \<open>(lineEnd, old length of lineEnd + 1)\<close>, and the widget moves that position into the
  new buffer.  On the three lines \<open>a\<close>, \<open>b\<close>, \<open>c\<close>, \<open>replaceLines(1, 2, "x")\<close> leaves
  the caret at line 2, column 2, behind the \<open>c\<close> it did not replace, where the inserted
  text ends at line 1, column 2; and \<open>replaceLine(1, "x\ny")\<close> leaves it at line 1,
  column 2, where the inserted text ends at line 2, column 2.
\<close>

theorem replace_caret_counterexample:
  "\<not> isl (replaceLines 1 2 ''x'' (readyModule abc)) \<and>
   bufLines (model (widgets (projr (replaceLines 1 2 ''x'' (readyModule abc))) 1)) = [''x'', ''c''] \<and>
   getPosition (widgets (projr (replaceLines 1 2 ''x'' (readyModule abc))) 1)
     = \<lparr>lineNumber = 2, column = 2\<rparr> \<and>
   insertedEnd 1 ''x'' = \<lparr>lineNumber = 1, column = 2\<rparr> \<and>
   \<not> isl (replaceLine 1 xy (readyModule abc)) \<and>
   bufLines (model (widgets (projr (replaceLine 1 xy (readyModule abc))) 1)) = [''x'', ''y'', ''b'', ''c''] \<and>
   getPosition (widgets (projr (replaceLine 1 xy (readyModule abc))) 1)
     = \<lparr>lineNumber = 1, column = 2\<rparr> \<and>
   insertedEnd 1 xy = \<lparr>lineNumber = 2, column = 2\<rparr>"
  by (simp add: run_defs length_xy splitLines_xy insertedEnd_def)

text \<open>
  C1, amended.  With both handles bound:
  \<^item> \<open>replaceLine(line, text)\<close> with \<open>line\<close> in range and no line terminator in
    \<open>text\<close> replaces exactly that line and leaves the caret at
    \<open>(line, text.length + 1)\<close>, the end of the inserted text;
  \<^item> \<open>replaceLines(lineStart, lineEnd, text)\<close> with
    \<open>1 \<le> lineStart \<le> lineEnd \<le> lineCount\<close> replaces exactly those lines by the lines of
    \<open>text\<close> and leaves the caret where the widget validates
    \<open>(lineEnd, old length of lineEnd + 1)\<close> in the new buffer; that is the end of the
    inserted text whenever \<open>text\<close> has as many lines as were replaced and its last line
    is no longer than the old line \<open>lineEnd\<close>.

  The witness is the scenario of the specification: on \<open>a\<close>, \<open>b\<close>, \<open>c\<close>,
  \<open>replaceLines(1, 2, "x\ny")\<close> gives \<open>x\<close>, \<open>y\<close>, \<open>c\<close> with the caret at line 2,
  column 2.
\<close>

theorem replace_caret:
  assumes ready: "getEditor st = Some h" "getMonaco st = Some mo"
  shows "(1 \<le> line \<and> line \<le> getLineCount (model (widgets st h)) \<and> noEOL txt \<longrightarrow>
          (\<exists>st'. replaceLine line txt st = Inr st' \<and>
             bufLines (model (widgets st' h)) =
               take (nat (line - 1)) (bufLines (model (widgets st h))) @ [txt]
                 @ drop (nat line) (bufLines (model (widgets st h))) \<and>
             getPosition (widgets st' h) = \<lparr>lineNumber = line, column = int (length txt) + 1\<rparr> \<and>
             getPosition (widgets st' h) = insertedEnd line txt))
       \<and> (1 \<le> lineStart \<and> lineStart \<le> lineEnd \<and> lineEnd \<le> getLineCount (model (widgets st h)) \<longrightarrow>
          (\<exists>st'. replaceLines lineStart lineEnd txt2 st = Inr st' \<and>
             bufLines (model (widgets st' h)) =
               take (nat (lineStart - 1)) (bufLines (model (widgets st h))) @ splitLines txt2
                 @ drop (nat lineEnd) (bufLines (model (widgets st h))) \<and>
             getPosition (widgets st' h) =
               validatePosition (model (widgets st' h))
                 \<lparr>lineNumber = lineEnd,
                  column = int (length (bufLines (model (widgets st h)) ! nat (lineEnd - 1))) + 1\<rparr> \<and>
             (int (length (splitLines txt2)) = lineEnd - lineStart + 1 \<and>
              length (last (splitLines txt2))
                \<le> length (bufLines (model (widgets st h)) ! nat (lineEnd - 1)) \<longrightarrow>
              getPosition (widgets st' h) = insertedEnd lineStart txt2)))"
proof (intro conjI impI)
  let ?m = "model (widgets st h)"
  assume a: "1 \<le> line \<and> line \<le> getLineCount ?m \<and> noEOL txt"
  let ?r = "mkRange line 1 line (lineMaxColumn ?m line)"
  let ?p = "\<lparr>lineNumber = line, column = int (length txt) + 1\<rparr>"
  define e1 where "e1 = executeEdits ?r (Some txt) (widgets st h)"
  let ?e1 = e1
  let ?st' = "updateWidget h (focus (setPosition ?p ?e1)) st"
  have run: "replaceLine line txt st = Inr ?st'"
    using ready a by (simp add: replaceLine_run e1_def)
  have ls: "bufLines (model ?e1) =
      take (nat (line - 1)) (bufLines ?m) @ [txt] @ drop (nat line) (bufLines ?m)"
    using a by (simp add: e1_def executeEdits_model applyEdit_lines splitLines_noEOL)
  have i: "nat (line - 1) \<le> nat line" "nat line \<le> length (bufLines ?m)"
      "nat line - nat (line - 1) = 1"
    using a unfolding getLineCount_def by arith+
  have cnt: "getLineCount (model ?e1) = getLineCount ?m"
    unfolding getLineCount_def ls by (simp only: length_take_append_drop [OF i(1,2)] i(3)) simp
  have "(take (nat (line - 1)) (bufLines ?m) @ [txt] @ drop (nat line) (bufLines ?m))
          ! (nat (line - 1) + 0) = [txt] ! 0"
    using i by (intro nth_take_append) simp_all
  then have nth: "bufLines (model ?e1) ! nat (line - 1) = txt"
    by (simp add: ls)
  have pos: "validatePosition (model ?e1) ?p = ?p"
    using a by (simp add: validatePosition_def Let_def cnt lineMaxColumn_def nth)
  have ie: "insertedEnd line txt = ?p"
    using a by (simp add: insertedEnd_def splitLines_noEOL)
  show "\<exists>st'. replaceLine line txt st = Inr st' \<and>
             bufLines (model (widgets st' h)) =
               take (nat (line - 1)) (bufLines ?m) @ [txt] @ drop (nat line) (bufLines ?m) \<and>
             getPosition (widgets st' h) = ?p \<and>
             getPosition (widgets st' h) = insertedEnd line txt"
    by (intro exI[of _ ?st'])
       (simp add: run updateWidget_same focus_setPosition_model focus_setPosition_caret ls pos ie)
next
  let ?m = "model (widgets st h)"
  let ?old = "bufLines ?m ! nat (lineEnd - 1)"
  assume a: "1 \<le> lineStart \<and> lineStart \<le> lineEnd \<and> lineEnd \<le> getLineCount ?m"
  let ?r = "mkRange lineStart 1 lineEnd (lineMaxColumn ?m lineEnd)"
  let ?p = "\<lparr>lineNumber = lineEnd, column = lineMaxColumn ?m lineEnd\<rparr>"
  define e1 where "e1 = executeEdits ?r (Some txt2) (widgets st h)"
  let ?e1 = e1
  let ?st' = "updateWidget h (focus (setPosition ?p ?e1)) st"
  have run: "replaceLines lineStart lineEnd txt2 st = Inr ?st'"
    using ready a by (simp add: replaceLines_run e1_def)
  have ls: "bufLines (model ?e1) =
      take (nat (lineStart - 1)) (bufLines ?m) @ splitLines txt2 @ drop (nat lineEnd) (bufLines ?m)"
    using a by (simp add: e1_def executeEdits_model applyEdit_lines)
  have p: "?p = \<lparr>lineNumber = lineEnd, column = int (length ?old) + 1\<rparr>"
    by (simp add: lineMaxColumn_def)
  have same: "getPosition (widgets ?st' h) = insertedEnd lineStart txt2"
    if b: "int (length (splitLines txt2)) = lineEnd - lineStart + 1 \<and>
           length (last (splitLines txt2)) \<le> length ?old"
  proof -
    have n: "length (splitLines txt2) = nat (lineEnd - lineStart + 1)"
      using b by linarith
    have i: "nat (lineStart - 1) \<le> nat lineEnd" "nat lineEnd \<le> length (bufLines ?m)"
        "nat lineEnd - nat (lineStart - 1) = length (splitLines txt2)"
        "nat (lineEnd - 1) = nat (lineStart - 1) + (length (splitLines txt2) - 1)"
      using a n unfolding getLineCount_def by arith+
    have cnt: "getLineCount (model ?e1) = getLineCount ?m"
      unfolding getLineCount_def ls by (simp only: length_take_append_drop [OF i(1,2)] i(3))
    have "(take (nat (lineStart - 1)) (bufLines ?m) @ splitLines txt2 @ drop (nat lineEnd) (bufLines ?m))
            ! (nat (lineStart - 1) + (length (splitLines txt2) - 1))
          = splitLines txt2 ! (length (splitLines txt2) - 1)"
      using i(1,2) by (intro nth_take_append) (simp_all add: splitLines_not_Nil)
    then have "bufLines (model ?e1) ! nat (lineEnd - 1) = splitLines txt2 ! (length (splitLines txt2) - 1)"
      by (simp only: ls i(4))
    then have nth: "bufLines (model ?e1) ! nat (lineEnd - 1) = last (splitLines txt2)"
      by (simp add: last_conv_nth splitLines_not_Nil)
    have "validatePosition (model ?e1) ?p =
        \<lparr>lineNumber = lineEnd, column = int (length (last (splitLines txt2))) + 1\<rparr>"
      using a b by (auto simp add: validatePosition_def Let_def cnt lineMaxColumn_def nth)
    moreover have "insertedEnd lineStart txt2 =
        \<lparr>lineNumber = lineEnd, column = int (length (last (splitLines txt2))) + 1\<rparr>"
      using b by (simp add: insertedEnd_def)
    ultimately show ?thesis
      by (simp add: updateWidget_same focus_setPosition_caret)
  qed
  show "\<exists>st'. replaceLines lineStart lineEnd txt2 st = Inr st' \<and>
             bufLines (model (widgets st' h)) =
               take (nat (lineStart - 1)) (bufLines ?m) @ splitLines txt2
                 @ drop (nat lineEnd) (bufLines ?m) \<and>
             getPosition (widgets st' h) =
               validatePosition (model (widgets st' h))
                 \<lparr>lineNumber = lineEnd, column = int (length ?old) + 1\<rparr> \<and>
             (int (length (splitLines txt2)) = lineEnd - lineStart + 1 \<and>
              length (last (splitLines txt2)) \<le> length ?old \<longrightarrow>
              getPosition (widgets st' h) = insertedEnd lineStart txt2)"
    using same
    by (intro exI[of _ ?st'])
       (simp add: run updateWidget_same focus_setPosition_model focus_setPosition_caret ls p)
qed


theorem replace_caret_witness:
  "(\<exists>st'. replaceLine 1 ''x'' (readyModule abc) = Inr st' \<and>
          bufLines (model (widgets st' 1)) = [''x'', ''b'', ''c''] \<and>
          getPosition (widgets st' 1) = \<lparr>lineNumber = 1, column = 2\<rparr>) \<and>
   (\<exists>st'. replaceLines 1 2 xy (readyModule abc) = Inr st' \<and>
          bufLines (model (widgets st' 1)) = [''x'', ''y'', ''c''] \<and>
          getPosition (widgets st' 1) = \<lparr>lineNumber = 2, column = 2\<rparr>)"
  using replace_caret [of "readyModule abc" 1 0 1 "''x''" 1 2 xy]
  by (auto simp add: readyModule_handles newEditor_lines splitLines_abc splitLines_xy
      getLineCount_def noEOL_def LF_def CR_def insertedEnd_def)

section \<open>Line numbers outside the buffer\<close>

text \<open>
  C8, as the code has it.  The claim makes every line-addressed operation fail on a
  line number beyond the line count.  The module checks no coordinate itself; it fails
  only where the widget's \<open>getLineContent\<close> or \<open>getLineLength\<close> is asked for a line
  that does not exist.  On the three lines \<open>a\<close>, \<open>b\<close>, \<open>c\<close>: \<open>deleteLine(5)\<close>
  returns normally, with the caret moved to the end of the buffer;
  \<open>replaceLines(5, 2, "x")\<close> returns normally and leaves the lines \<open>a\<close>, \<open>bx\<close>; and
  \<open>getLinesContent(5, 2)\<close> returns the terminator after line 2 and the \<open>c\<close>.
\<close>

theorem out_of_range_lines_counterexample:
  "\<not> isl (deleteLine 5 (readyModule abc)) \<and>
   getPosition (widgets (projr (deleteLine 5 (readyModule abc))) 1)
     = \<lparr>lineNumber = 3, column = 2\<rparr> \<and>
   \<not> isl (replaceLines 5 2 ''x'' (readyModule abc)) \<and>
   bufLines (model (widgets (projr (replaceLines 5 2 ''x'' (readyModule abc))) 1))
     = [''a'', ''bx''] \<and>
   getLinesContent 5 2 (readyModule abc) = Inr (LF # ''c'')"
  by (simp add: run_defs deleteLine_def getLinesContent_def getValueInRange_def
      linesInRange_def newEditor_eol)

text \<open>
  C8, amended.  With both handles bound, and a line number below 1 or beyond the line
  count: \<open>getLineContent(line)\<close> and \<open>replaceLine(line, text)\<close> fail with the widget's
  illegal-line-number error, and so do \<open>getLinesContent(lineStart, line)\<close> and
  \<open>replaceLines(lineStart, line, text)\<close> when it is their \<open>lineEnd\<close>; the error reaches
  the caller and nothing has been written.  A \<open>lineStart\<close> outside the buffer does not
  make \<open>getLinesContent\<close> or \<open>replaceLines\<close> fail when \<open>lineEnd\<close> is inside, and
  \<open>deleteLine\<close> fails for no line number.  (None of these functions takes a column.)
\<close>

theorem out_of_range_lines:
  assumes ready: "getEditor st = Some h" "getMonaco st = Some mo"
  shows "(line < 1 \<or> line > getLineCount (model (widgets st h)) \<longrightarrow>
            getLineContent line st = Inl IllegalLineNumber \<and>
            replaceLine line txt st = Inl IllegalLineNumber \<and>
            getLinesContent lineStart line st = Inl IllegalLineNumber \<and>
            replaceLines lineStart line txt st = Inl IllegalLineNumber)
       \<and> (1 \<le> line \<and> line \<le> getLineCount (model (widgets st h)) \<longrightarrow>
            \<not> isl (getLinesContent lineStart line st) \<and>
            \<not> isl (replaceLines lineStart line txt st))
       \<and> \<not> isl (deleteLine line st)"
  using ready
  by (simp add: getLineContent_def getLineContentM_def replaceLine_def getLinesContent_def
      replaceLines_def deleteLine_def getLineLength_def Let_def)

theorem out_of_range_lines_witness:
  "getLineContent 4 (readyModule abc) = Inl IllegalLineNumber \<and>
   replaceLine 0 ''x'' (readyModule abc) = Inl IllegalLineNumber \<and>
   getLinesContent 1 4 (readyModule abc) = Inl IllegalLineNumber \<and>
   replaceLines 1 4 ''x'' (readyModule abc) = Inl IllegalLineNumber \<and>
   \<not> isl (getLinesContent 7 1 (readyModule abc)) \<and>
   \<not> isl (replaceLines 7 1 ''x'' (readyModule abc)) \<and>
   \<not> isl (deleteLine 4 (readyModule abc))"
  using out_of_range_lines [of "readyModule abc" 1 0 4 "''x''" 1]
        out_of_range_lines [of "readyModule abc" 1 0 0 "''x''" 1]
        out_of_range_lines [of "readyModule abc" 1 0 1 "''x''" 7]
  by (simp add: readyModule_handles newEditor_lines splitLines_abc getLineCount_def)

section \<open>Reading and writing the whole value\<close>

text \<open>
  C5.  With both handles bound and a buffer that has a line and holds no terminator
  inside a line (every buffer the widget builds is so, \<open>wfModel_createModel\<close>, and
  every action of the module keeps it so, \<open>step_wf\<close>): \<open>getValue()\<close> returns the
  lines joined by line feeds, a value with no carriage return in it, and
  \<open>setValue(getValue())\<close> leaves the text model as it was, lines and terminator, so
  \<open>getValue()\<close> returns the same value afterwards.
\<close>

theorem setValue_getValue:
  assumes ready: "getEditor st = Some h" "getMonaco st = Some mo"
    and wf: "wfModel (model (widgets st h))"
  shows "\<exists>v st'. getValue st = Inr v \<and>
           v = joinLines [LF] (bufLines (model (widgets st h))) \<and>
           CR \<notin> set v \<and>
           setValue v st = Inr st' \<and>
           model (widgets st' h) = model (widgets st h) \<and>
           getValue st' = Inr v"
proof -
  let ?m = "model (widgets st h)"
  let ?v = "joinLines [LF] (bufLines ?m)"
  let ?r = "mkRange 1 1 (getLineCount ?m) (lineMaxColumn ?m (getLineCount ?m))"
  let ?st' = "updateWidget h (focus (executeEdits ?r (Some ?v) (widgets st h))) st"
  have ne: "bufLines ?m \<noteq> []" and all: "list_all noEOL (bufLines ?m)"
    using wf by (simp_all add: wfModel_def)
  have gv: "getValue st = Inr ?v"
    using ready by (simp add: getValue_def getValueM_def)
  have sv: "setValue ?v st = Inr ?st'"
    using ready ne by (rule setValue_run)
  have "model (widgets ?st' h) = ?m\<lparr>bufLines := splitLines ?v\<rparr>"
    by (simp add: updateWidget_same focus_def executeEdits_model applyEdit_all [OF ne])
  then have m: "model (widgets ?st' h) = ?m"
    by (simp add: splitLines_joinLines [OF ne all])
  have e: "getEditor ?st' = Some h" "getMonaco ?st' = Some mo"
    using ready by (simp_all add: getEditor_def getMonaco_def updateWidget_def)
  have gv': "getValue ?st' = Inr ?v"
    using e by (simp add: getValue_def getValueM_def m)
  show ?thesis
    using gv sv m gv' joinLines_LF_no_CR [OF all] by blast
qed


theorem setValue_getValue_witness:
  "\<exists>v st'. getValue (readyModule abc) = Inr v \<and> v = abc \<and>
           setValue v (readyModule abc) = Inr st' \<and>
           bufLines (model (widgets st' 1)) = [''a'', ''b'', ''c''] \<and>
           getValue st' = Inr abc"
proof -
  have wf: "wfModel (model (widgets (readyModule abc) 1))"
    by (simp add: readyModule_handles newEditor_lines splitLines_abc wfModel_def
        noEOL_def LF_def CR_def)
  from setValue_getValue [OF readyModule_handles(1,2) wf]
  obtain v st' where r: "getValue (readyModule abc) = Inr v"
      "v = joinLines [LF] (bufLines (model (widgets (readyModule abc) 1)))"
      "setValue v (readyModule abc) = Inr st'"
      "model (widgets st' 1) = model (widgets (readyModule abc) 1)"
      "getValue st' = Inr v"
    by blast
  have ls: "bufLines (model (widgets (readyModule abc) 1)) = [''a'', ''b'', ''c'']"
    by (simp add: readyModule_handles newEditor_lines splitLines_abc)
  have v: "v = abc"
    unfolding r(2) ls by (simp add: abc_def)
  have "bufLines (model (widgets st' 1)) = [''a'', ''b'', ''c'']"
    unfolding r(4) by (rule ls)
  then show ?thesis
    using r(1,3,5) v by blast
qed

section \<open>Replacing occurrences in the value\<close>

text \<open>
  C6.  With both handles bound, a buffer of at least one line (every buffer of the
  widget has one) and a search value that is a string, let \<open>content\<close> be the value as
  \<open>replaceValue\<close> reads it and \<open>ps\<close> the match positions \<open>replaceAll\<close> finds in it.
  \<^item> \<open>replaceValue(search, val, replaceAll)\<close> issues exactly one edit, over the range
    from line 1, column 1 to the end of the last line, whose text is \<open>content\<close> with
    the substitution made at every position of \<open>ps\<close> when \<open>replaceAll\<close> is true, and at
    the first position of \<open>ps\<close> only (at none when \<open>ps\<close> is empty) when it is false; the
    buffer then holds the lines of that text.
  \<^item> Every position of \<open>ps\<close> is an occurrence of the search value; the matches do
    not overlap; every occurrence of the search value is a match or overlaps one, and
    none starts before the first match.
  \<^item> A replacement with no dollar sign in it is substituted as it is.
\<close>

theorem replaceValue_occurrences:
  assumes ready: "getEditor st = Some h" "getMonaco st = Some mo"
    and ne: "bufLines (model (widgets st h)) \<noteq> []"
    and content: "content = getValueM (model (widgets st h)) TextDefined"
    and ps: "ps = matchPositions content pat 0"
    and res: "result = buildReplaced content pat val 0 (if replaceAll then ps else take 1 ps)"
  shows "(\<exists>st'. replaceValue pat val replaceAll st = Inr st' \<and>
            edits (widgets st' h) =
              edits (widgets st h)
                @ [(\<lparr>startLineNumber = 1, startColumn = 1,
                      endLineNumber = getLineCount (model (widgets st h)),
                      endColumn = int (length (last (bufLines (model (widgets st h))))) + 1\<rparr>,
                    Some result)] \<and>
            bufLines (model (widgets st' h)) = splitLines result)
       \<and> (\<forall>p\<in>set ps. occursAt pat content p)
       \<and> sorted_wrt (\<lambda>p q. p + max 1 (length pat) \<le> q) ps
       \<and> (\<forall>j. occursAt pat content j \<longrightarrow>
             ps \<noteq> [] \<and> hd ps \<le> j \<and> (\<exists>p\<in>set ps. p \<le> j \<and> j < p + max 1 (length pat)))
       \<and> (CHR ''$'' \<notin> set val \<longrightarrow> (\<forall>p. getSubstitution pat content p val = val))"
proof (intro conjI)
  let ?m = "model (widgets st h)"
  let ?r = "mkRange 1 1 (getLineCount ?m) (lineMaxColumn ?m (getLineCount ?m))"
  let ?st' = "updateWidget h (focus (executeEdits ?r (Some result) (widgets st h))) st"
  have rt: "(if replaceAll then jsReplaceAll content pat val else jsReplace content pat val)
      = result"
    by (simp add: res ps jsReplaceAll_def jsReplace_build)
  have "replaceValue pat val replaceAll st = setValue result st"
    using ready(1) by (simp add: replaceValue_def content [symmetric] rt Let_def)
  then have run: "replaceValue pat val replaceAll st = Inr ?st'"
    by (simp add: setValue_run [OF ready ne])
  have ed: "edits (widgets ?st' h) = edits (widgets st h) @ [(?r, Some result)]"
    by (simp add: updateWidget_same focus_def executeEdits_edits)
  have ls: "bufLines (model (widgets ?st' h)) = splitLines result"
    by (simp add: updateWidget_same focus_def executeEdits_model applyEdit_all [OF ne])
  show "\<exists>st'. replaceValue pat val replaceAll st = Inr st' \<and>
            edits (widgets st' h) =
              edits (widgets st h)
                @ [(\<lparr>startLineNumber = 1, startColumn = 1,
                      endLineNumber = getLineCount ?m,
                      endColumn = int (length (last (bufLines ?m))) + 1\<rparr>,
                    Some result)] \<and>
            bufLines (model (widgets st' h)) = splitLines result"
    using run ed ls unfolding wholeRange [OF ne] by blast
  show "\<forall>p\<in>set ps. occursAt pat content p"
    using matchPositions_occur unfolding ps by blast
  show "sorted_wrt (\<lambda>p q. p + max 1 (length pat) \<le> q) ps"
    unfolding ps by (rule matchPositions_apart)
  show "\<forall>j. occursAt pat content j \<longrightarrow>
             ps \<noteq> [] \<and> hd ps \<le> j \<and> (\<exists>p\<in>set ps. p \<le> j \<and> j < p + max 1 (length pat))"
    unfolding ps using matchPositions_first matchPositions_cover [where i = 0] by blast
  show "CHR ''$'' \<notin> set val \<longrightarrow> (\<forall>p. getSubstitution pat content p val = val)"
    by (simp add: getSubstitution_plain)
qed


theorem replaceValue_occurrences_witness:
  "(\<exists>st'. replaceValue ''b'' ''X'' True (readyModule abab) = Inr st' \<and>
         bufLines (model (widgets st' 1)) = [''aX'', ''aX''] \<and>
         length (edits (widgets st' 1)) = 1) \<and>
   (\<exists>st'. replaceValue ''b'' ''X'' False (readyModule abab) = Inr st' \<and>
         bufLines (model (widgets st' 1)) = [''aX'', ''ab''] \<and>
         length (edits (widgets st' 1)) = 1) \<and>
   matchPositions abab ''b'' 0 = [1, 4] \<and> occursAt ''b'' abab 1 \<and> occursAt ''b'' abab 4"
proof -
  have ne: "bufLines (model (widgets (readyModule abab) 1)) \<noteq> []"
    by (simp add: readyModule_handles newEditor_lines splitLines_abab)
  have e: "edits (widgets (readyModule abab) 1) = []"
    by (simp add: readyModule_handles newEditor_def)
  have s1: "splitLines (''aX'' @ [LF] @ ''aX'') = [''aX'', ''aX'']"
    and s2: "splitLines (''aX'' @ [LF] @ ''ab'') = [''aX'', ''ab'']"
    by (simp_all add: LF_def CR_def)
  note t = replaceValue_occurrences [OF readyModule_handles(1,2) ne refl refl refl,
      of "''b''" "''X''" True, unfolded readyModule_handles value_abab matchPositions_abab]
  note f = replaceValue_occurrences [OF readyModule_handles(1,2) ne refl refl refl,
      of "''b''" "''X''" False, unfolded readyModule_handles value_abab matchPositions_abab]
  from t obtain st1 where a:
      "replaceValue ''b'' ''X'' True (readyModule abab) = Inr st1"
      "edits (widgets st1 1) = edits (newEditor abab) @
         [(\<lparr>startLineNumber = 1, startColumn = 1,
             endLineNumber = getLineCount (model (newEditor abab)),
             endColumn = int (length (last (bufLines (model (newEditor abab))))) + 1\<rparr>,
           Some (buildReplaced abab ''b'' ''X'' 0 (if True then [1, 4] else take 1 [1, 4])))]"
      "bufLines (model (widgets st1 1)) =
         splitLines (buildReplaced abab ''b'' ''X'' 0 (if True then [1, 4] else take 1 [1, 4]))"
    by blast
  have 1: "\<exists>st'. replaceValue ''b'' ''X'' True (readyModule abab) = Inr st' \<and>
         bufLines (model (widgets st' 1)) = [''aX'', ''aX''] \<and>
         length (edits (widgets st' 1)) = 1"
    using a(1) a(3) [unfolded if_True buildReplaced_abab s1] a(2) [unfolded e [unfolded readyModule_handles]]
    by (intro exI [of _ st1]) simp
  from f obtain st2 where b:
      "replaceValue ''b'' ''X'' False (readyModule abab) = Inr st2"
      "edits (widgets st2 1) = edits (newEditor abab) @
         [(\<lparr>startLineNumber = 1, startColumn = 1,
             endLineNumber = getLineCount (model (newEditor abab)),
             endColumn = int (length (last (bufLines (model (newEditor abab))))) + 1\<rparr>,
           Some (buildReplaced abab ''b'' ''X'' 0 (if False then [1, 4] else take 1 [1, 4])))]"
      "bufLines (model (widgets st2 1)) =
         splitLines (buildReplaced abab ''b'' ''X'' 0 (if False then [1, 4] else take 1 [1, 4]))"
    by blast
  have 2: "\<exists>st'. replaceValue ''b'' ''X'' False (readyModule abab) = Inr st' \<and>
         bufLines (model (widgets st' 1)) = [''aX'', ''ab''] \<and>
         length (edits (widgets st' 1)) = 1"
    using b(1) b(3) [unfolded if_False buildReplaced_abab s2] b(2) [unfolded e [unfolded readyModule_handles]]
    by (intro exI [of _ st2]) simp
  from t have 3: "occursAt ''b'' abab 1 \<and> occursAt ''b'' abab 4"
    by (simp del: buildReplaced.simps)
  show ?thesis
    using 1 2 3 matchPositions_abab by blast
qed

section \<open>Toggling word wrap\<close>

text \<open>
  C3.  With both handles bound: when the wrapping info reports
  \<open>isDominatedByLongLines\<close>, \<open>toggleWrap()\<close> changes nothing of the module's state but the
  list of toasts, which gains exactly one, a warning; the store is as it was and no
  mutation is committed.  Otherwise \<open>toggleWrap()\<close> commits \<open>setWordWrap\<close> with \<open>off\<close> when
  the viewport is wrapping and with \<open>on\<close> when it is not, and shows no toast.
\<close>

theorem toggleWrap_dominated:
  assumes ready: "getEditor st = Some h" "getMonaco st = Some mo"
  shows "(isDominatedByLongLines (widgets st h) \<longrightarrow>
            toggleWrap st =
              Inr (st\<lparr>toasts := toasts st @ [(''warning'', ''Word warp dominated by long lines'')]\<rparr>)
            \<and> store (projr (toggleWrap st)) = store st
            \<and> committed (projr (toggleWrap st)) = committed st
            \<and> length (toasts (projr (toggleWrap st))) = length (toasts st) + 1
            \<and> fst (last (toasts (projr (toggleWrap st)))) = ''warning'')
       \<and> (\<not> isDominatedByLongLines (widgets st h) \<longrightarrow>
            toggleWrap st =
              Inr (commit (SetWordWrap (if isViewportWrapping (widgets st h) then WrapOff else WrapOn)) st)
            \<and> committed (projr (toggleWrap st)) =
                committed st
                  @ [SetWordWrap (if isViewportWrapping (widgets st h) then WrapOff else WrapOn)]
            \<and> toasts (projr (toggleWrap st)) = toasts st)"
  using ready
  by (simp add: toggleWrap_def getEditor_def getMonaco_def showToast_def commit_def Let_def)

theorem toggleWrap_dominated_witness:
  "store (projr (toggleWrap longLinesModule)) = store longLinesModule \<and>
   committed (projr (toggleWrap longLinesModule)) = [] \<and>
   toasts (projr (toggleWrap longLinesModule)) = [(''warning'', ''Word warp dominated by long lines'')] \<and>
   committed (projr (toggleWrap wrappingModule)) = [SetWordWrap WrapOff] \<and>
   toasts (projr (toggleWrap wrappingModule)) = [] \<and>
   committed (projr (toggleWrap (readyModule abc))) = [SetWordWrap WrapOn] \<and>
   toasts (projr (toggleWrap (readyModule abc))) = []"
proof -
  have l: "getEditor longLinesModule = Some 1" "getMonaco longLinesModule = Some 0"
      "isDominatedByLongLines (widgets longLinesModule 1)"
      "store longLinesModule = \<lparr>wordWrap = WrapOff, typewriterMode = False\<rparr>"
      "committed longLinesModule = []" "toasts longLinesModule = []"
    by (simp_all add: longLinesModule_def updateWidget_fields updateWidget_same
        readyModule_handles readyModule_fields)
  have w: "getEditor wrappingModule = Some 1" "getMonaco wrappingModule = Some 0"
      "\<not> isDominatedByLongLines (widgets wrappingModule 1)"
      "isViewportWrapping (widgets wrappingModule 1)"
      "committed wrappingModule = []" "toasts wrappingModule = []"
    by (simp_all add: wrappingModule_def updateWidget_fields updateWidget_same
        readyModule_handles readyModule_fields newEditor_def)
  have r: "\<not> isDominatedByLongLines (widgets (readyModule abc) 1)"
      "\<not> isViewportWrapping (widgets (readyModule abc) 1)"
    by (simp_all add: readyModule_handles newEditor_def)
  from toggleWrap_dominated [OF l(1,2)] l(3)
  have 1: "store (projr (toggleWrap longLinesModule)) = store longLinesModule"
      "committed (projr (toggleWrap longLinesModule)) = committed longLinesModule"
      "toggleWrap longLinesModule =
         Inr (longLinesModule\<lparr>toasts := toasts longLinesModule
                @ [(''warning'', ''Word warp dominated by long lines'')]\<rparr>)"
    by blast+
  from toggleWrap_dominated [OF w(1,2)] w(3)
  have 2: "committed (projr (toggleWrap wrappingModule)) =
        committed wrappingModule
          @ [SetWordWrap (if isViewportWrapping (widgets wrappingModule 1) then WrapOff else WrapOn)]"
      "toasts (projr (toggleWrap wrappingModule)) = toasts wrappingModule"
    by blast+
  from toggleWrap_dominated [OF readyModule_handles(1,2)] r(1)
  have 3: "committed (projr (toggleWrap (readyModule abc))) =
        committed (readyModule abc)
          @ [SetWordWrap (if isViewportWrapping (widgets (readyModule abc) 1) then WrapOff else WrapOn)]"
      "toasts (projr (toggleWrap (readyModule abc))) = toasts (readyModule abc)"
    by blast+
  show ?thesis
    using 1 2 3 l(5,6) w(4,5,6) r(2) by (simp add: readyModule_fields)
qed

section \<open>Toggling typewriter mode\<close>

text \<open>
  C10.  \<open>toggleTypewriterMode()\<close> commits \<open>setTypewriterMode\<close> with the negation of
  \<open>state.typewriterMode\<close>; with the store as modelled, that field is negated, the other
  field of the store and the rest of the module's state but the list of commits are as
  they were, and toggling twice gives back the store.
\<close>

theorem toggleTypewriterMode_involution:
  "committed (toggleTypewriterMode st) = committed st @ [SetTypewriterMode (\<not> typewriterMode (store st))]
   \<and> store (toggleTypewriterMode st) = (store st)\<lparr>typewriterMode := \<not> typewriterMode (store st)\<rparr>
   \<and> typewriterMode (store (toggleTypewriterMode st)) = (\<not> typewriterMode (store st))
   \<and> wordWrap (store (toggleTypewriterMode st)) = wordWrap (store st)
   \<and> toggleTypewriterMode st = st\<lparr>store := store (toggleTypewriterMode st),
                                    committed := committed (toggleTypewriterMode st)\<rparr>
   \<and> store (toggleTypewriterMode (toggleTypewriterMode st)) = store st"
  by (simp add: toggleTypewriterMode_def commit_def)

theorem toggleTypewriterMode_involution_witness:
  "typewriterMode (store (toggleTypewriterMode (readyModule abc))) = True \<and>
   typewriterMode (store (toggleTypewriterMode (toggleTypewriterMode (readyModule abc)))) = False \<and>
   committed (toggleTypewriterMode (toggleTypewriterMode (readyModule abc)))
     = [SetTypewriterMode True, SetTypewriterMode False]"
  using toggleTypewriterMode_involution [of "readyModule abc"]
        toggleTypewriterMode_involution [of "toggleTypewriterMode (readyModule abc)"]
  by (simp add: readyModule_fields)


section \<open>Typewriter mode\<close>

text \<open>
  C7.  The handler of caret-position changes issues \<open>revealPositionInCenter\<close> with the
  position of the event exactly when typewriter mode is on, the source of the event is
  \<open>deleteLeft\<close> or \<open>keyboard\<close>, and its reason is 0 or 3 (the two codes the claim
  glosses as content-changed and explicit); then nothing else changes.  In every other
  case, so for every event while typewriter mode is off and for every event whose
  source is \<open>mouse\<close>, the state is as it was.
\<close>

theorem typewriter_reveal:
  "revealed (widgets (onDidChangeCursorPosition h e st) h) =
     revealed (widgets st h)
       @ (if typewriterMode (store st)
             \<and> (eventSource e = ''deleteLeft'' \<or> eventSource e = ''keyboard'')
             \<and> (eventReason e = 0 \<or> eventReason e = 3)
          then [eventPosition e] else [])
   \<and> (typewriterMode (store st)
        \<and> (eventSource e = ''deleteLeft'' \<or> eventSource e = ''keyboard'')
        \<and> (eventReason e = 0 \<or> eventReason e = 3) \<longrightarrow>
      onDidChangeCursorPosition h e st =
        updateWidget h (revealPositionInCenter (eventPosition e) (widgets st h)) st)
   \<and> (\<not> (typewriterMode (store st)
           \<and> (eventSource e = ''deleteLeft'' \<or> eventSource e = ''keyboard'')
           \<and> (eventReason e = 0 \<or> eventReason e = 3)) \<longrightarrow>
      onDidChangeCursorPosition h e st = st)"
  by (simp add: onDidChangeCursorPosition_def Let_def updateWidget_same
      revealPositionInCenter_def)

theorem typewriter_reveal_witness:
  "revealed (widgets (onDidChangeCursorPosition 1 (cursorEvent ''keyboard'' 0)
       (toggleTypewriterMode (readyModule abc))) 1) = [\<lparr>lineNumber = 2, column = 1\<rparr>] \<and>
   revealed (widgets (onDidChangeCursorPosition 1 (cursorEvent ''deleteLeft'' 3)
       (toggleTypewriterMode (readyModule abc))) 1) = [\<lparr>lineNumber = 2, column = 1\<rparr>] \<and>
   onDidChangeCursorPosition 1 (cursorEvent ''mouse'' 0) (toggleTypewriterMode (readyModule abc))
     = toggleTypewriterMode (readyModule abc) \<and>
   onDidChangeCursorPosition 1 (cursorEvent ''keyboard'' 1) (toggleTypewriterMode (readyModule abc))
     = toggleTypewriterMode (readyModule abc) \<and>
   onDidChangeCursorPosition 1 (cursorEvent ''keyboard'' 0) (readyModule abc) = readyModule abc"
proof -
  let ?on = "toggleTypewriterMode (readyModule abc)"
  have on: "typewriterMode (store ?on)" "\<not> typewriterMode (store (readyModule abc))"
    by (simp_all add: toggleTypewriterMode_def commit_def readyModule_fields)
  have rv: "revealed (widgets ?on 1) = []"
    by (simp add: toggleTypewriterMode_def commit_def readyModule_handles newEditor_def)
  have src: "eventSource (cursorEvent src reason) = src"
    and rsn: "eventReason (cursorEvent src reason) = reason"
    and pos: "eventPosition (cursorEvent src reason) = \<lparr>lineNumber = 2, column = 1\<rparr>"
    for src reason
    by (simp_all add: cursorEvent_def)
  note t = typewriter_reveal
  have 1: "revealed (widgets (onDidChangeCursorPosition 1 (cursorEvent ''keyboard'' 0) ?on) 1)
      = [\<lparr>lineNumber = 2, column = 1\<rparr>]"
    using t [of 1 "cursorEvent ''keyboard'' 0" ?on, THEN conjunct1] on(1)
    by (simp only: src rsn pos rv) simp
  have 2: "revealed (widgets (onDidChangeCursorPosition 1 (cursorEvent ''deleteLeft'' 3) ?on) 1)
      = [\<lparr>lineNumber = 2, column = 1\<rparr>]"
    using t [of 1 "cursorEvent ''deleteLeft'' 3" ?on, THEN conjunct1] on(1)
    by (simp only: src rsn pos rv) simp
  have 3: "onDidChangeCursorPosition 1 (cursorEvent ''mouse'' 0) ?on = ?on"
    using t [of 1 "cursorEvent ''mouse'' 0" ?on, THEN conjunct2, THEN conjunct2]
    by (simp only: src rsn) simp
  have 4: "onDidChangeCursorPosition 1 (cursorEvent ''keyboard'' 1) ?on = ?on"
    using t [of 1 "cursorEvent ''keyboard'' 1" ?on, THEN conjunct2, THEN conjunct2]
    by (simp only: src rsn) simp
  have 5: "onDidChangeCursorPosition 1 (cursorEvent ''keyboard'' 0) (readyModule abc)
      = readyModule abc"
    using t [of 1 "cursorEvent ''keyboard'' 0" "readyModule abc", THEN conjunct2, THEN conjunct2]
      on(2)
    by (simp only: src rsn) simp
  show ?thesis
    using 1 2 3 4 5 by (simp only: simp_thms)
qed

section \<open>Hooks, promises and the handles\<close>

lemma resolvePromise_frame:
  "monaco (resolvePromise k v st) = monaco st"
  "editor (resolvePromise k v st) = editor st"
  "hooks (resolvePromise k v st) = hooks st"
  "length (promises (resolvePromise k v st)) = length (promises st)"
  by (simp_all add: resolvePromise_def)

lemma resolvePromise_nth:
  "j < length (promises st) \<Longrightarrow>
   promises (resolvePromise k v st) ! j =
     (if j = k \<and> promises st ! j = None then Some v else promises st ! j)"
  by (auto simp add: resolvePromise_def nth_list_update)

lemma invokeHooks_frame:
  "monaco (invokeHooks hs v st) = monaco st"
  "editor (invokeHooks hs v st) = editor st"
  "length (promises (invokeHooks hs v st)) = length (promises st)"
  by (induction hs arbitrary: st) (simp_all add: resolvePromise_frame)

lemma invokeHooks_nth:
  "j < length (promises st) \<Longrightarrow>
   promises (invokeHooks hs v st) ! j =
     (case promises st ! j of
        Some w \<Rightarrow> Some w
      | None \<Rightarrow> if j \<in> hookResolves ` set hs then Some v else None)"
proof (induction hs arbitrary: st)
  case Nil
  then show ?case by (simp split: option.splits)
next
  case (Cons h hs)
  let ?st1 = "if hookOnce h then st\<lparr>hooks := remove1 h (hooks st)\<rparr> else st"
  let ?st2 = "resolvePromise (hookResolves h) v ?st1"
  have p1: "promises ?st1 = promises st" by simp
  have len: "j < length (promises ?st2)"
    using Cons.prems by (simp add: resolvePromise_frame)
  have nth: "promises ?st2 ! j =
      (if j = hookResolves h \<and> promises st ! j = None then Some v else promises st ! j)"
    using Cons.prems resolvePromise_nth [of j ?st1 "hookResolves h" v] by (simp only: p1)
  have "promises (invokeHooks (h # hs) v st) ! j = promises (invokeHooks hs v ?st2) ! j"
    by simp
  also have "\<dots> = (case promises ?st2 ! j of
        Some w \<Rightarrow> Some w
      | None \<Rightarrow> if j \<in> hookResolves ` set hs then Some v else None)"
    using len by (rule Cons.IH)
  finally show ?case
    by (simp only: nth) (auto split: option.splits)
qed

lemma triggerHook_frame:
  "monaco (triggerHook n v st) = monaco st"
  "editor (triggerHook n v st) = editor st"
  "length (promises (triggerHook n v st)) = length (promises st)"
  by (simp_all add: triggerHook_def invokeHooks_frame)

lemma triggerHook_waiting:
  assumes "waiting k st"
  shows "promises (triggerHook EDITOR_READY v st) ! k = Some v"
proof -
  from assms obtain h where h: "h \<in> set (hooks st)" "hookName h = EDITOR_READY"
      "hookResolves h = k" and k: "k < length (promises st)" "promises st ! k = None"
    by (auto simp: waiting_def)
  have "k \<in> hookResolves ` set (filter (\<lambda>h. hookName h = EDITOR_READY) (hooks st))"
    using h by force
  then show ?thesis
    using k by (simp add: triggerHook_def invokeHooks_nth)
qed

lemma triggerHook_resolved:
  assumes "k < length (promises st)" "promises st ! k = Some w"
  shows "promises (triggerHook n v st) ! k = Some w"
  using assms by (simp add: triggerHook_def invokeHooks_nth)


lemmas op_defs =
  insert_text_def insertAt_def replaceLine_def replaceLines_def deleteLine_def setValue_def
  replaceValue_def toggleWrap_def toggleTypewriterMode_def onDidChangeCursorPosition_def
  orUnchanged_def updateWidget_def commit_def showToast_def Let_def getEditor_def getMonaco_def

lemma step_frame:
  assumes "\<not> firesEditorReady a" "a \<noteq> CallWhenEditorReady"
  shows "promises (step a st) = promises st" "hooks (step a st) = hooks st"
    "monaco (step a st) = monaco st" "editor (step a st) = editor st"
  using assms
  by (cases a; simp add: op_defs split: option.splits sum.splits)+

lemma whenEditorReady_frame:
  "monaco (snd (whenEditorReady st)) = monaco st"
  "editor (snd (whenEditorReady st)) = editor st"
  "fst (whenEditorReady st) = length (promises st)"
  "\<exists>r. promises (snd (whenEditorReady st)) = promises st @ [r]"
  "set (hooks st) \<subseteq> set (hooks (snd (whenEditorReady st)))"
  by (auto simp add: whenEditorReady_def registerHook_def Let_def split: option.splits)

lemma step_handles:
  "\<not> bindsHandles a \<Longrightarrow> monaco (step a st) = monaco st \<and> editor (step a st) = editor st"
proof (cases "a = CallWhenEditorReady")
  case True
  then show ?thesis by (simp add: whenEditorReady_frame)
next
  case False
  assume nb: "\<not> bindsHandles a"
  show ?thesis
  proof (cases "firesEditorReady a")
    case True
    with nb obtain p where "a = FireEditorReady p" by (cases a) simp_all
    then show ?thesis by (simp add: triggerHook_frame)
  next
    case False
    with \<open>a \<noteq> CallWhenEditorReady\<close> show ?thesis by (simp add: step_frame)
  qed
qed

lemma onMonacoReady_binds:
  "monaco (onMonacoReady p st) = Some (payloadMonaco p)"
  "editor (onMonacoReady p st) = Some (payloadEditor p)"
  by (simp_all add: onMonacoReady_def triggerHook_frame)

lemma step_waiting:
  assumes "waiting k st" "\<not> firesEditorReady a"
  shows "waiting k (step a st)"
proof (cases "a = CallWhenEditorReady")
  case True
  obtain r where r: "promises (snd (whenEditorReady st)) = promises st @ [r]"
    using whenEditorReady_frame(4) by blast
  show ?thesis
    using assms(1) whenEditorReady_frame(5) [of st]
    by (auto simp add: True waiting_def r nth_append)
next
  case False
  then show ?thesis
    using assms by (simp add: waiting_def step_frame)
qed

lemma run_waiting:
  "waiting k st \<Longrightarrow> \<forall>a\<in>set as. \<not> firesEditorReady a \<Longrightarrow> waiting k (run as st)"
  by (induction as arbitrary: st) (simp_all add: step_waiting)

lemma step_resolved:
  assumes "k < length (promises st)" "promises st ! k = Some w"
  shows "k < length (promises (step a st)) \<and> promises (step a st) ! k = Some w"
proof (cases "a = CallWhenEditorReady")
  case True
  obtain r where r: "promises (snd (whenEditorReady st)) = promises st @ [r]"
    using whenEditorReady_frame(4) by blast
  show ?thesis using assms by (simp add: True r nth_append)
next
  case False
  show ?thesis
  proof (cases "firesEditorReady a")
    case True
    then consider p where "a = FireEditorReady p" | p where "a = FireMonacoReady p"
      by (cases a) simp_all
    then show ?thesis
    proof cases
      case 1
      then show ?thesis using assms by (simp add: triggerHook_frame triggerHook_resolved)
    next
      case 2
      let ?b = "st\<lparr>monaco := Some (payloadMonaco p), editor := Some (payloadEditor p)\<rparr>"
      have "k < length (promises ?b)" "promises ?b ! k = Some w" using assms by simp_all
      then show ?thesis
        using 2 by (simp add: onMonacoReady_def triggerHook_frame triggerHook_resolved)
    qed
  next
    case f: False
    show ?thesis using assms False f by (simp add: step_frame)
  qed
qed

lemma run_resolved:
  "k < length (promises st) \<Longrightarrow> promises st ! k = Some w \<Longrightarrow> promises (run as st) ! k = Some w"
  by (induction as arbitrary: st) (simp_all add: step_resolved)

lemma fire_waiting:
  assumes "waiting k st"
  shows "promises (step (FireEditorReady p) st) ! k = Some p"
    and "promises (step (FireMonacoReady p) st) ! k = Some p"
    and "k < length (promises (step (FireEditorReady p) st))"
    and "k < length (promises (step (FireMonacoReady p) st))"
proof -
  let ?b = "st\<lparr>monaco := Some (payloadMonaco p), editor := Some (payloadEditor p)\<rparr>"
  have b: "waiting k ?b" using assms by (simp add: waiting_def)
  show "promises (step (FireEditorReady p) st) ! k = Some p"
    using assms by (simp add: triggerHook_waiting)
  show "promises (step (FireMonacoReady p) st) ! k = Some p"
    using b by (simp add: onMonacoReady_def triggerHook_waiting)
  show "k < length (promises (step (FireEditorReady p) st))"
    using assms by (simp add: triggerHook_frame waiting_def)
  show "k < length (promises (step (FireMonacoReady p) st))"
    using assms by (simp add: onMonacoReady_def triggerHook_frame waiting_def)
qed


lemma whenEditorReady_unbound:
  assumes "monaco st = None \<or> editor st = None"
  shows "waiting (fst (whenEditorReady st)) (snd (whenEditorReady st))"
  using assms
  by (auto simp add: whenEditorReady_def registerHook_def waiting_def Let_def nth_append
      split: option.splits)

lemma run_handles:
  "\<forall>a\<in>set as. \<not> bindsHandles a \<Longrightarrow>
   monaco (run as st) = monaco st \<and> editor (run as st) = editor st"
  by (induction as arbitrary: st) (simp_all add: step_handles)

lemma step_bound:
  "monaco st \<noteq> None \<and> editor st \<noteq> None \<Longrightarrow>
   monaco (step a st) \<noteq> None \<and> editor (step a st) \<noteq> None"
proof (cases "bindsHandles a")
  case True
  then obtain p where "a = FireMonacoReady p" by (cases a) simp_all
  then show ?thesis by (simp add: onMonacoReady_binds)
next
  case False
  assume "monaco st \<noteq> None \<and> editor st \<noteq> None"
  then show ?thesis using step_handles [OF False, of st] by simp
qed

lemma run_bound:
  "monaco st \<noteq> None \<and> editor st \<noteq> None \<Longrightarrow>
   monaco (run as st) \<noteq> None \<and> editor (run as st) \<noteq> None"
proof (induction as arbitrary: st)
  case Nil
  then show ?case by simp
next
  case (Cons a as)
  from Cons.prems have "monaco (step a st) \<noteq> None \<and> editor (step a st) \<noteq> None"
    by (rule step_bound)
  then show ?case using Cons.IH by simp
qed

section \<open>Buffers stay well-formed\<close>

text \<open>
  Every buffer the widget builds from a text is well-formed, and every action of the
  module keeps every buffer so.
\<close>

lemma validatePosition_line:
  assumes "bufLines m \<noteq> []"
  shows "1 \<le> lineNumber (validatePosition m p) \<and> lineNumber (validatePosition m p) \<le> getLineCount m"
proof -
  have "1 \<le> getLineCount m"
    using assms by (cases "bufLines m") (simp_all add: getLineCount_def)
  then show ?thesis
    by (simp add: validatePosition_def Let_def)
qed

lemma validateRange_lines_in:
  assumes "bufLines m \<noteq> []"
  shows "nat (startLineNumber (validateRange m r) - 1) < length (bufLines m)"
    and "nat (endLineNumber (validateRange m r) - 1) < length (bufLines m)"
proof -
  let ?s = "validatePosition m \<lparr>lineNumber = startLineNumber r, column = startColumn r\<rparr>"
  let ?e = "validatePosition m \<lparr>lineNumber = endLineNumber r, column = endColumn r\<rparr>"
  have s: "1 \<le> lineNumber ?s \<and> lineNumber ?s \<le> int (length (bufLines m))"
    and e: "1 \<le> lineNumber ?e \<and> lineNumber ?e \<le> int (length (bufLines m))"
    using validatePosition_line [OF assms] by (simp_all add: getLineCount_def)
  show "nat (startLineNumber (validateRange m r) - 1) < length (bufLines m)"
    using s e by (simp add: validateRange_def Let_def mkRange_def) linarith
  show "nat (endLineNumber (validateRange m r) - 1) < length (bufLines m)"
    using s e by (simp add: validateRange_def Let_def mkRange_def) linarith
qed

lemma noEOL_append: "noEOL (a @ b) = (noEOL a \<and> noEOL b)"
  by (auto simp: noEOL_def)

lemma noEOL_take: "noEOL l \<Longrightarrow> noEOL (take n l)"
  by (auto simp: noEOL_def dest: in_set_takeD)

lemma noEOL_drop: "noEOL l \<Longrightarrow> noEOL (drop n l)"
  by (auto simp: noEOL_def dest: in_set_dropD)

lemma spliceLines_noEOL:
  assumes "noEOL pre" "noEOL post" "list_all noEOL ns"
  shows "list_all noEOL (spliceLines pre ns post) \<and> spliceLines pre ns post \<noteq> []"
proof (cases ns)
  case Nil
  then show ?thesis using assms by (simp add: spliceLines_def noEOL_append)
next
  case (Cons n rest)
  show ?thesis
  proof (cases "rest = []")
    case True
    then show ?thesis using assms Cons by (simp add: spliceLines_def noEOL_append)
  next
    case False
    then have "list_all noEOL (butlast rest)" "noEOL (last rest)"
      using assms(3) Cons by (auto simp: list_all_iff dest: in_set_butlastD)
    then show ?thesis
      using assms Cons False by (simp add: spliceLines_def noEOL_append)
  qed
qed

lemma applyEdit_wf:
  assumes "wfModel m"
  shows "wfModel (applyEdit m r t)"
proof -
  let ?L = "bufLines m"
  let ?v = "validateRange m r"
  have ne: "?L \<noteq> []" and all: "list_all noEOL ?L"
    using assms by (simp_all add: wfModel_def)
  have s: "noEOL (?L ! nat (startLineNumber ?v - 1))"
    and e: "noEOL (?L ! nat (endLineNumber ?v - 1))"
    using validateRange_lines_in [OF ne, of r] all by (simp_all add: list_all_length)
  let ?pre = "take (nat (startColumn ?v - 1)) (?L ! nat (startLineNumber ?v - 1))"
  let ?post = "drop (nat (endColumn ?v - 1)) (?L ! nat (endLineNumber ?v - 1))"
  let ?ns = "splitLines (case t of None \<Rightarrow> [] | Some s \<Rightarrow> s)"
  have mid: "list_all noEOL (spliceLines ?pre ?ns ?post) \<and> spliceLines ?pre ?ns ?post \<noteq> []"
    using s e by (intro spliceLines_noEOL noEOL_take noEOL_drop splitLines_lines_noEOL)
  have "list_all noEOL (take n ?L)" "list_all noEOL (drop n ?L)" for n
    using all by (auto simp: list_all_iff dest: in_set_takeD in_set_dropD)
  then show ?thesis
    using mid by (simp add: wfModel_def applyEdit_def Let_def)
qed


lemma widget_op_model:
  "model (focus ed) = model ed"
  "model (setPosition p ed) = model ed"
  "model (revealPositionInCenter p ed) = model ed"
  by (simp_all add: focus_def setPosition_def revealPositionInCenter_def)

lemma invokeHooks_widgets: "widgets (invokeHooks hs v st) = widgets st"
  by (induction hs arbitrary: st) (simp_all add: resolvePromise_def)

lemma step_wf:
  assumes "\<forall>h. wfModel (model (widgets st h))"
  shows "wfModel (model (widgets (step a st) h))"
proof -
  have w: "wfModel (model (widgets st h))" for h using assms by simp
  have e: "wfModel (applyEdit (model (widgets st h)) r t)" for h r t
    using w by (rule applyEdit_wf)
  show ?thesis
    by (cases a)
       (simp_all add: op_defs w e widget_op_model executeEdits_model whenEditorReady_def
          registerHook_def onMonacoReady_def triggerHook_def invokeHooks_widgets
          split: option.splits sum.splits)
qed

lemma run_wf:
  "\<forall>h. wfModel (model (widgets st h)) \<Longrightarrow> wfModel (model (widgets (run as st) h))"
  by (induction as arbitrary: st) (simp_all add: step_wf)

section \<open>Waiting for the editor\<close>

text \<open>
  C2.  A call of \<open>whenEditorReady()\<close> while both handles are bound returns a promise
  that is already resolved, with exactly those two handles, and registers nothing.  A
  call while a handle is unbound returns a pending promise and registers its \<open>resolve\<close>
  once on \<open>EDITOR_READY\<close>; the promise stays pending through every sequence of actions
  in which \<open>EDITOR_READY\<close> does not fire, and as soon as it fires (from another module,
  or from the module's own \<open>MONACO_READY\<close> handler) the promise is resolved with the
  payload of that hook, for good.
\<close>

theorem whenEditorReady_resolves:
  "(monaco st = Some mo \<and> editor st = Some ed \<longrightarrow>
      fst (whenEditorReady st) = length (promises st) \<and>
      promises (snd (whenEditorReady st)) =
        promises st @ [Some \<lparr>payloadMonaco = mo, payloadEditor = ed\<rparr>] \<and>
      hooks (snd (whenEditorReady st)) = hooks st)
   \<and> (monaco st = None \<or> editor st = None \<longrightarrow>
      fst (whenEditorReady st) = length (promises st) \<and>
      promises (snd (whenEditorReady st)) = promises st @ [None] \<and>
      hooks (snd (whenEditorReady st)) =
        hooks st @ [\<lparr>hookName = EDITOR_READY, hookResolves = length (promises st), hookOnce = True\<rparr>] \<and>
      (\<forall>as. (\<forall>a\<in>set as. \<not> firesEditorReady a) \<longrightarrow>
         promises (run as (snd (whenEditorReady st))) ! fst (whenEditorReady st) = None \<and>
         (\<forall>p bs.
            promises (run bs (step (FireEditorReady p) (run as (snd (whenEditorReady st)))))
              ! fst (whenEditorReady st) = Some p \<and>
            promises (run bs (step (FireMonacoReady p) (run as (snd (whenEditorReady st)))))
              ! fst (whenEditorReady st) = Some p)))"
proof (intro conjI impI allI)
  assume "monaco st = Some mo \<and> editor st = Some ed"
  then show "fst (whenEditorReady st) = length (promises st)"
    and "promises (snd (whenEditorReady st)) =
        promises st @ [Some \<lparr>payloadMonaco = mo, payloadEditor = ed\<rparr>]"
    and "hooks (snd (whenEditorReady st)) = hooks st"
    by (simp_all add: whenEditorReady_def Let_def)
next
  assume u: "monaco st = None \<or> editor st = None"
  then show "fst (whenEditorReady st) = length (promises st)"
    and "promises (snd (whenEditorReady st)) = promises st @ [None]"
    and "hooks (snd (whenEditorReady st)) =
        hooks st @ [\<lparr>hookName = EDITOR_READY, hookResolves = length (promises st), hookOnce = True\<rparr>]"
    by (auto simp add: whenEditorReady_def registerHook_def Let_def split: option.splits)
next
  fix as p bs
  let ?k = "fst (whenEditorReady st)"
  let ?st' = "snd (whenEditorReady st)"
  assume u: "monaco st = None \<or> editor st = None"
    and quiet: "\<forall>a\<in>set as. \<not> firesEditorReady a"
  have w: "waiting ?k (run as ?st')"
    using whenEditorReady_unbound [OF u] quiet by (rule run_waiting)
  then show "promises (run as ?st') ! ?k = None"
    by (simp add: waiting_def)
  show "promises (run bs (step (FireEditorReady p) (run as ?st'))) ! ?k = Some p"
    using fire_waiting(1,3) [OF w] by (intro run_resolved)
  show "promises (run bs (step (FireMonacoReady p) (run as ?st'))) ! ?k = Some p"
    using fire_waiting(2,4) [OF w] by (intro run_resolved)
qed

theorem whenEditorReady_resolves_witness:
  "fst (whenEditorReady (readyModule abc)) = 0 \<and>
   promises (snd (whenEditorReady (readyModule abc)))
     = [Some \<lparr>payloadMonaco = 0, payloadEditor = 1\<rparr>] \<and>
   fst (whenEditorReady (loadedModule abc)) = 0 \<and>
   promises (snd (whenEditorReady (loadedModule abc))) = [None] \<and>
   promises (run [CallToggleTypewriterMode, CallWhenEditorReady]
               (snd (whenEditorReady (loadedModule abc)))) ! 0 = None \<and>
   promises (run [CallToggleWrap]
               (step (FireMonacoReady \<lparr>payloadMonaco = 7, payloadEditor = 8\<rparr>)
                  (run [CallToggleTypewriterMode, CallWhenEditorReady]
                     (snd (whenEditorReady (loadedModule abc)))))) ! 0
     = Some \<lparr>payloadMonaco = 7, payloadEditor = 8\<rparr>"
proof -
  let ?as = "[CallToggleTypewriterMode, CallWhenEditorReady]"
  have r: "monaco (readyModule abc) = Some 0 \<and> editor (readyModule abc) = Some 1"
    using readyModule_handles(1,2) [of abc] by (simp add: getEditor_def getMonaco_def)
  have q: "\<not> firesEditorReady a" if "a \<in> set ?as" for a
    using that by auto
  note b = whenEditorReady_resolves [of "readyModule abc" 0 1, THEN conjunct1, rule_format, OF r]
  note u = whenEditorReady_resolves [of "loadedModule abc", THEN conjunct2, rule_format,
      OF disjI1, OF loadedModule_fields(1)]
  note u4 = u [THEN conjunct2, THEN conjunct2, THEN conjunct2, rule_format,
      where as = ?as, OF q]
  have k: "fst (whenEditorReady (loadedModule abc)) = 0"
    using u by (simp add: loadedModule_fields)
  have 1: "fst (whenEditorReady (readyModule abc)) = 0"
    using b by (simp add: readyModule_fields)
  have 2: "promises (snd (whenEditorReady (readyModule abc)))
     = [Some \<lparr>payloadMonaco = 0, payloadEditor = 1\<rparr>]"
    using b by (simp add: readyModule_fields)
  have 3: "promises (snd (whenEditorReady (loadedModule abc))) = [None]"
    using u by (simp add: loadedModule_fields)
  note 4 = u4 [THEN conjunct1, unfolded k]
  note 5 = u4 [THEN conjunct2, rule_format,
        where p = "\<lparr>payloadMonaco = 7, payloadEditor = 8\<rparr>" and bs = "[CallToggleWrap]",
        THEN conjunct2, unfolded k]
  show ?thesis
    using 1 2 3 4 5 k by (simp only: simp_thms)
qed

section \<open>The handles stay bound\<close>

text \<open>
  C9.  After the \<open>MONACO_READY\<close> handler has run, both handles are bound in every state
  the module can reach: \<open>getMonaco()\<close> and \<open>getEditor()\<close> return a handle.  No action
  unbinds a bound handle; the handles are those of the payload until \<open>MONACO_READY\<close>
  fires again, which binds the handles of its own payload.
\<close>

theorem handles_stay_bound:
  "getMonaco (run as (onMonacoReady p st)) \<noteq> None
   \<and> getEditor (run as (onMonacoReady p st)) \<noteq> None
   \<and> (getMonaco st \<noteq> None \<and> getEditor st \<noteq> None \<longrightarrow>
        getMonaco (step a st) \<noteq> None \<and> getEditor (step a st) \<noteq> None \<and>
        getMonaco (run as st) \<noteq> None \<and> getEditor (run as st) \<noteq> None)
   \<and> ((\<forall>a\<in>set as. \<not> bindsHandles a) \<longrightarrow>
        getMonaco (run as (onMonacoReady p st)) = Some (payloadMonaco p) \<and>
        getEditor (run as (onMonacoReady p st)) = Some (payloadEditor p))"
proof -
  have b: "monaco (onMonacoReady p st) = Some (payloadMonaco p)"
      "editor (onMonacoReady p st) = Some (payloadEditor p)"
    by (rule onMonacoReady_binds)+
  then have "monaco (onMonacoReady p st) \<noteq> None \<and> editor (onMonacoReady p st) \<noteq> None"
    by simp
  from run_bound [OF this]
  have 1: "getMonaco (run as (onMonacoReady p st)) \<noteq> None"
      "getEditor (run as (onMonacoReady p st)) \<noteq> None"
    by (simp_all add: getMonaco_def getEditor_def)
  have 2: "getMonaco st \<noteq> None \<and> getEditor st \<noteq> None \<longrightarrow>
        getMonaco (step a st) \<noteq> None \<and> getEditor (step a st) \<noteq> None \<and>
        getMonaco (run as st) \<noteq> None \<and> getEditor (run as st) \<noteq> None"
    using step_bound [of st a] run_bound [of st as]
    by (simp add: getMonaco_def getEditor_def)
  have 3: "(\<forall>a\<in>set as. \<not> bindsHandles a) \<longrightarrow>
        getMonaco (run as (onMonacoReady p st)) = Some (payloadMonaco p) \<and>
        getEditor (run as (onMonacoReady p st)) = Some (payloadEditor p)"
    using run_handles [of as "onMonacoReady p st"] b
    by (simp add: getMonaco_def getEditor_def)
  show ?thesis using 1 2 3 by blast
qed


theorem handles_stay_bound_witness:
  "getMonaco (run [CallDeleteLine 1, CallToggleWrap, CallSetValue ''z'', FireEditorReady
        \<lparr>payloadMonaco = 7, payloadEditor = 8\<rparr>]
      (onMonacoReady \<lparr>payloadMonaco = 0, payloadEditor = 1\<rparr> (loadedModule abc))) = Some 0 \<and>
   getEditor (run [CallDeleteLine 1, CallToggleWrap, CallSetValue ''z'', FireEditorReady
        \<lparr>payloadMonaco = 7, payloadEditor = 8\<rparr>]
      (onMonacoReady \<lparr>payloadMonaco = 0, payloadEditor = 1\<rparr> (loadedModule abc))) = Some 1 \<and>
   getMonaco (step (FireMonacoReady \<lparr>payloadMonaco = 7, payloadEditor = 8\<rparr>) (readyModule abc))
     \<noteq> None"
proof -
  let ?as = "[CallDeleteLine 1, CallToggleWrap, CallSetValue ''z'', FireEditorReady
        \<lparr>payloadMonaco = 7, payloadEditor = 8\<rparr>]"
  have q: "\<not> bindsHandles a" if "a \<in> set ?as" for a
    using that by auto
  have r: "getMonaco (readyModule abc) \<noteq> None \<and> getEditor (readyModule abc) \<noteq> None"
    by (simp add: readyModule_handles)
  note t = handles_stay_bound [of ?as "\<lparr>payloadMonaco = 0, payloadEditor = 1\<rparr>" "loadedModule abc"]
  note s = handles_stay_bound [of "[]" "\<lparr>payloadMonaco = 0, payloadEditor = 1\<rparr>" "readyModule abc"
      "FireMonacoReady \<lparr>payloadMonaco = 7, payloadEditor = 8\<rparr>"]
  from t [THEN conjunct2, THEN conjunct2, THEN conjunct2, rule_format, OF q]
    s [THEN conjunct2, THEN conjunct2, THEN conjunct1, rule_format, OF r]
  show ?thesis by simp
qed

end
